theory Spec2Isabelle
  imports
    Main
    "HOL-Library.Char_ord"
    "HOL-Library.List_Lexorder"
    "HOL-Library.AList"
    "HOL-Library.Sublist"
begin

section \<open>Python strings\<close>

text \<open>
  A Python \<open>str\<close> is modelled as a \<^typ>\<open>string\<close>; a \<^typ>\<open>char\<close> stands for a code
  point below 256, so \<open>len\<close> is \<^const>\<open>length\<close> and indexing is by code point.
  \<open>str.strip()\<close>, \<open>lstrip()\<close> and \<open>rstrip()\<close> without argument remove the
  characters for which \<open>str.isspace\<close> holds; below 256 these are
  U+0009..U+000D, U+001C..U+001F, U+0020, U+0085 and U+00A0.
\<close>

abbreviation dquote :: char where "dquote \<equiv> CHR 0x22"
abbreviation squote :: char where "squote \<equiv> CHR 0x27"
abbreviation bslash :: char where "bslash \<equiv> CHR 0x5C"
abbreviation newline :: char where "newline \<equiv> CHR 0x0A"

definition isspace :: "char \<Rightarrow> bool" where
  "isspace c \<longleftrightarrow> c \<in> set [CHR 0x09, CHR 0x0A, CHR 0x0B, CHR 0x0C, CHR 0x0D,
      CHR 0x1C, CHR 0x1D, CHR 0x1E, CHR 0x1F, CHR 0x20, CHR 0x85, CHR 0xA0]"

definition lstrip :: "string \<Rightarrow> string" where
  "lstrip s = dropWhile isspace s"

definition rstrip :: "string \<Rightarrow> string" where
  "rstrip s = rev (dropWhile isspace (rev s))"

definition strip :: "string \<Rightarrow> string" where
  "strip s = rstrip (lstrip s)"

text \<open>\<open>s.startswith("'")\<close> and \<open>s.endswith("'")\<close>; both are false on the empty string.\<close>

definition startswith_squote :: "string \<Rightarrow> bool" where
  "startswith_squote s \<longleftrightarrow> s \<noteq> [] \<and> hd s = squote"

definition endswith_squote :: "string \<Rightarrow> bool" where
  "endswith_squote s \<longleftrightarrow> s \<noteq> [] \<and> last s = squote"

text \<open>\<open>s.split(sep)\<close> for a separator of one character: never the empty list.\<close>

fun py_split :: "char \<Rightarrow> string \<Rightarrow> string list" where
  "py_split sep [] = [[]]"
| "py_split sep (c # cs) =
     (if c = sep then [] # py_split sep cs
      else (case py_split sep cs of
              [] \<Rightarrow> [[c]]
            | p # ps \<Rightarrow> (c # p) # ps))"

text \<open>\<open>sep.join(parts)\<close>.\<close>

fun join :: "string \<Rightarrow> string list \<Rightarrow> string" where
  "join sep [] = []"
| "join sep [x] = x"
| "join sep (x # y # ys) = x @ sep @ join sep (y # ys)"

text \<open>
  \<open>s.replace(old, new)\<close>: the occurrences of \<open>old\<close> are replaced from left to
  right without overlap. An empty \<open>old\<close> is not used by the program and leaves
  the string as it is here.
\<close>

function replace :: "string \<Rightarrow> string \<Rightarrow> string \<Rightarrow> string" where
  "replace old new [] = []"
| "replace old new (c # cs) =
     (if old \<noteq> [] \<and> prefix old (c # cs)
      then new @ replace old new (drop (length old) (c # cs))
      else c # replace old new cs)"
  by pat_completeness auto
termination
  by (relation "measure (\<lambda>(old, new, s). length s)") (auto simp: Suc_le_eq)

subsection \<open>Integers and their decimal text\<close>

text \<open>
  \<open>str(n)\<close> and \<open>int(s)\<close> on Python's unbounded integers. \<open>int\<close> accepts
  surrounding whitespace, one sign, and decimal digits in which single
  underscores may stand between two digits; anything else raises \<open>ValueError\<close>,
  which is \<^const>\<open>None\<close> here. The interpreter's limit on the number of digits
  of a conversion is not modelled.
\<close>

definition is_digit :: "char \<Rightarrow> bool" where
  "is_digit c \<longleftrightarrow> CHR ''0'' \<le> c \<and> c \<le> CHR ''9''"

definition digit_val :: "char \<Rightarrow> nat" where
  "digit_val c = of_char c - 48"

definition digit_char :: "nat \<Rightarrow> char" where
  "digit_char d = char_of (48 + d)"

fun str_nat :: "nat \<Rightarrow> string" where
  "str_nat n = (if n < 10 then [digit_char n] else str_nat (n div 10) @ [digit_char (n mod 10)])"

declare str_nat.simps [simp del]

definition str_int :: "int \<Rightarrow> string" where
  "str_int i = (if i < 0 then CHR ''-'' # str_nat (nat (- i)) else str_nat (nat i))"

fun digits_tail :: "nat \<Rightarrow> string \<Rightarrow> nat option" where
  "digits_tail acc [] = Some acc"
| "digits_tail acc (c # cs) =
     (if is_digit c then digits_tail (acc * 10 + digit_val c) cs
      else if c = CHR ''_'' then
        (case cs of
           [] \<Rightarrow> None
         | d # ds \<Rightarrow> if is_digit d then digits_tail (acc * 10 + digit_val d) ds else None)
      else None)"

definition nat_literal :: "string \<Rightarrow> nat option" where
  "nat_literal s =
     (case s of
        [] \<Rightarrow> None
      | c # cs \<Rightarrow> if is_digit c then digits_tail (digit_val c) cs else None)"

definition py_int :: "string \<Rightarrow> int option" where
  "py_int text =
     (case strip text of
        [] \<Rightarrow> None
      | c # cs \<Rightarrow>
          if c = CHR ''-'' then map_option (\<lambda>n. - int n) (nat_literal cs)
          else if c = CHR ''+'' then map_option int (nat_literal cs)
          else map_option int (nat_literal (c # cs)))"

text \<open>\<open>str(n).zfill(w)\<close>, the \<open>%0wd\<close> of \<open>isoformat\<close>.\<close>

definition zfill :: "nat \<Rightarrow> string \<Rightarrow> string" where
  "zfill w s = replicate (w - length s) (CHR ''0'') @ s"

section \<open>Field normalisation\<close>

text \<open>
  \<open>_strip_wrapping_quotes\<close>. The slices are \<open>s[1:-1] = butlast (tl s)\<close>,
  \<open>s[:-1] = butlast s\<close>, \<open>s[1:] = tl s\<close>, and \<open>s[-2]\<close> is read only where
  \<open>len(s) >= 2\<close>. The two recovery blocks run one after the other on the
  reassigned \<open>s\<close>, as in the source.
\<close>

definition strip_wrapping_quotes :: "string \<Rightarrow> string" where
  "strip_wrapping_quotes text =
    (let s = strip text in
     if 2 \<le> length s \<and> hd s = last s \<and> hd s \<in> set [dquote, squote]
     then strip (butlast (tl s))
     else
       let s1 =
         (if endswith_squote s \<and> \<not> startswith_squote s then
            (if 2 \<le> length s \<and> s ! (length s - 2) \<in> set ''.!?'' then rstrip (butlast s)
             else if count_list s squote = 1 then rstrip (butlast s)
             else s)
          else s);
           s2 =
         (if startswith_squote s1 \<and> \<not> endswith_squote s1 then
            (if count_list s1 squote = 1 then lstrip (tl s1) else s1)
          else s1)
       in s2)"

text \<open>
  The normalisation as claim C8 words it, taken literally: one layer of
  matching wrapping quotes is removed and the inside trimmed again; otherwise
  a trailing single quote is dropped after terminal punctuation or when it is
  the string's only single quote, and a leading single quote is dropped when
  it is the string's only single quote; every other string is returned
  trimmed. To drop the quote is to remove that one character and nothing
  else.
\<close>

definition normalize_field_worded :: "string \<Rightarrow> string" where
  "normalize_field_worded text =
    (let s = strip text in
     if 2 \<le> length s \<and> hd s = last s \<and> (hd s = dquote \<or> hd s = squote)
       then strip (butlast (tl s))
     else if s \<noteq> [] \<and> last s = squote \<and>
             (s ! (length s - 2) \<in> {CHR ''.'', CHR ''!'', CHR ''?''} \<or> count_list s squote = 1)
       then butlast s
     else if s \<noteq> [] \<and> hd s = squote \<and> count_list s squote = 1
       then tl s
     else s)"

text \<open>
  The amended wording: as above, but a trailing single quote is dropped only
  from a string that does not begin with one, a leading single quote only from
  a string that does not end with one (so the string that is one single quote
  is kept), and after the drop the rest is trimmed again on the side where the
  quote stood.
\<close>

definition normalize_field_amended :: "string \<Rightarrow> string" where
  "normalize_field_amended text =
    (let s = strip text in
     if 2 \<le> length s \<and> hd s = last s \<and> (hd s = dquote \<or> hd s = squote)
       then strip (butlast (tl s))
     else if s \<noteq> [] \<and> last s = squote \<and> hd s \<noteq> squote \<and>
             (s ! (length s - 2) \<in> {CHR ''.'', CHR ''!'', CHR ''?''} \<or> count_list s squote = 1)
       then rstrip (butlast s)
     else if s \<noteq> [] \<and> hd s = squote \<and> last s \<noteq> squote \<and> count_list s squote = 1
       then lstrip (tl s)
     else s)"

definition split_semicolon_list :: "string \<Rightarrow> string list" where
  "split_semicolon_list text =
     (let s = strip_wrapping_quotes text in
      if s = [] then []
      else filter (\<lambda>p. p \<noteq> []) (map strip (py_split (CHR '';'') s)))"

definition split_comma_list :: "string \<Rightarrow> string list" where
  "split_comma_list text =
     (let s = strip_wrapping_quotes text in
      if s = [] then []
      else filter (\<lambda>p. p \<noteq> []) (map strip (py_split (CHR '','') s)))"

definition parse_int :: "string \<Rightarrow> int \<Rightarrow> int" where
  "parse_int val dflt =
     (let s = strip_wrapping_quotes val in
      if s = [] then dflt
      else (case py_int s of Some n \<Rightarrow> n | None \<Rightarrow> dflt))"

section \<open>JSON values\<close>

text \<open>
  The values that \<open>json.loads\<close> returns and \<open>json.dumps\<close> takes. A \<open>dict\<close> is an
  association list in insertion order whose keys are distinct, read with
  \<^const>\<open>map_of\<close> and written with \<^const>\<open>AList.update\<close> (an existing key keeps its
  place, a new key goes to the end) as a Python \<open>dict\<close> is. JSON numbers are
  integers: floating point values are outside the model.
\<close>

datatype json =
    JNull
  | JBool bool
  | JInt int
  | JStr string
  | JArr "json list"
  | JObj "(string \<times> json) list"

text \<open>
  \<open>json.encoder.encode_basestring\<close>, the string encoder under
  \<open>ensure_ascii=False\<close>: the quote, the backslash and the control characters
  below U+0020 are escaped, every other character is written as it is.
\<close>

definition hex_digit :: "nat \<Rightarrow> char" where
  "hex_digit d = (if d < 10 then char_of (48 + d) else char_of (87 + d))"

definition escape_char :: "char \<Rightarrow> string" where
  "escape_char c =
     (if c = dquote then [bslash, dquote]
      else if c = bslash then [bslash, bslash]
      else if c = CHR 0x08 then [bslash, CHR ''b'']
      else if c = CHR 0x0C then [bslash, CHR ''f'']
      else if c = CHR 0x0A then [bslash, CHR ''n'']
      else if c = CHR 0x0D then [bslash, CHR ''r'']
      else if c = CHR 0x09 then [bslash, CHR ''t'']
      else if (of_char c :: nat) < 0x20 then
        [bslash, CHR ''u'', CHR ''0'', CHR ''0'',
         hex_digit (of_char c div 16), hex_digit (of_char c mod 16)]
      else [c])"

definition encode_basestring :: "string \<Rightarrow> string" where
  "encode_basestring s = dquote # concat (map escape_char s) @ [dquote]"

text \<open>
  \<open>json.dumps(v, ensure_ascii=False, sort_keys=True, separators=(",", ":"))\<close>:
  the items of every object are sorted by key (code point order, which is the
  order of \<^typ>\<open>string\<close> here) and nothing is written between the tokens.
\<close>

fun dumps_compact :: "json \<Rightarrow> string" where
  "dumps_compact JNull = ''null''"
| "dumps_compact (JBool b) = (if b then ''true'' else ''false'')"
| "dumps_compact (JInt i) = str_int i"
| "dumps_compact (JStr s) = encode_basestring s"
| "dumps_compact (JArr xs) = ''['' @ join '','' (map dumps_compact xs) @ '']''"
| "dumps_compact (JObj kvs) =
     ''{'' @ join '',''
        (map (\<lambda>kv. encode_basestring (fst kv) @ '':'' @ dumps_compact (snd kv))
             (sort_key fst kvs)) @ ''}''"

text \<open>
  \<open>json.dumps(v, ensure_ascii=False, indent=2)\<close>: items in insertion order, one
  per line, indented by two spaces per nesting level; an empty list or object
  is written \<open>[]\<close> or \<open>{}\<close>.
\<close>

definition newline_indent :: "nat \<Rightarrow> string" where
  "newline_indent level = newline # replicate (2 * level) (CHR '' '')"

fun dumps_indent :: "nat \<Rightarrow> json \<Rightarrow> string" where
  "dumps_indent level JNull = ''null''"
| "dumps_indent level (JBool b) = (if b then ''true'' else ''false'')"
| "dumps_indent level (JInt i) = str_int i"
| "dumps_indent level (JStr s) = encode_basestring s"
| "dumps_indent level (JArr xs) =
     (if xs = [] then ''[]''
      else ''['' @ newline_indent (level + 1)
           @ join ('','' @ newline_indent (level + 1)) (map (dumps_indent (level + 1)) xs)
           @ newline_indent level @ '']'')"
| "dumps_indent level (JObj kvs) =
     (if kvs = [] then ''{}''
      else ''{'' @ newline_indent (level + 1)
           @ join ('','' @ newline_indent (level + 1))
               (map (\<lambda>kv. encode_basestring (fst kv) @ '': '' @ dumps_indent (level + 1) (snd kv)) kvs)
           @ newline_indent level @ ''}'')"

text \<open>
  Python's \<open>==\<close> on these values: \<open>True == 1\<close> and \<open>False == 0\<close>, lists are
  equal element by element, and two dicts are equal when they have the same
  keys with equal values, whatever the order of insertion.
\<close>

fun py_eq :: "json \<Rightarrow> json \<Rightarrow> bool" where
  "py_eq JNull y = (y = JNull)"
| "py_eq (JBool a) y =
     (case y of JBool b \<Rightarrow> a = b | JInt j \<Rightarrow> (if a then 1 else 0) = j | _ \<Rightarrow> False)"
| "py_eq (JInt i) y =
     (case y of JInt j \<Rightarrow> i = j | JBool b \<Rightarrow> i = (if b then 1 else 0) | _ \<Rightarrow> False)"
| "py_eq (JStr s) y = (y = JStr s)"
| "py_eq (JArr xs) y = (case y of JArr ys \<Rightarrow> list_all2 py_eq xs ys | _ \<Rightarrow> False)"
| "py_eq (JObj a) y =
     (case y of
        JObj b \<Rightarrow>
          set (map fst a) = set (map fst b) \<and>
          (\<forall>kv \<in> set a. case map_of b (fst kv) of None \<Rightarrow> False | Some w \<Rightarrow> py_eq (snd kv) w)
      | _ \<Rightarrow> False)"

section \<open>The table\<close>

definition DATEKEY_COL :: string where "DATEKEY_COL = ''dateKey (YYYY-MM-DD)''"
definition CATEGORY_COL :: string where "CATEGORY_COL = ''category''"
definition TAGS_COL :: string where "TAGS_COL = ''tags (semicolon-separated)''"
definition ANSWER_CANONICAL_COL :: string where "ANSWER_CANONICAL_COL = ''answerCanonical''"
definition ANSWER_ALIASES_COL :: string where "ANSWER_ALIASES_COL = ''answerAliases (comma-separated)''"
definition SOLUTION_EXPLANATION_COL :: string where "SOLUTION_EXPLANATION_COL = ''solutionExplanation''"
definition VERSION_COL :: string where "VERSION_COL = ''version''"
definition CONTENT_HASH_COL :: string where "CONTENT_HASH_COL = ''contentHash''"

named_theorems col_defs

declare DATEKEY_COL_def [col_defs] CATEGORY_COL_def [col_defs] TAGS_COL_def [col_defs]
  ANSWER_CANONICAL_COL_def [col_defs] ANSWER_ALIASES_COL_def [col_defs]
  SOLUTION_EXPLANATION_COL_def [col_defs] VERSION_COL_def [col_defs]
  CONTENT_HASH_COL_def [col_defs]

text \<open>
  A row as \<open>csv.DictReader\<close> returns it and \<open>read_csv_table\<close> keeps it: the
  values under the column names (\<open>cells\<close>, a dict), and, when the line has
  more fields than the header, the list of the surplus fields, which
  \<open>DictReader\<close> stores under the key \<open>None\<close> (\<open>rest\<close>). \<open>row.get(k, "")\<close> with a column
  name reads \<open>cells\<close>.
\<close>

record row =
  cells :: "(string \<times> string) list"
  rest :: "string list option"

definition row_get :: "row \<Rightarrow> string \<Rightarrow> string" where
  "row_get r k = (case map_of (cells r) k of Some v \<Rightarrow> v | None \<Rightarrow> [])"

definition row_set :: "row \<Rightarrow> string \<Rightarrow> string \<Rightarrow> row" where
  "row_set r k v = r\<lparr>cells := AList.update k v (cells r)\<rparr>"

record CsvTable =
  header :: "string list"
  rows :: "row list"
  delimiter :: char

text \<open>
  The table file is kept as the \<open>csv\<close> module reads it: the delimiter that
  \<open>_detect_delimiter\<close> finds on its first line, and the records that
  \<open>csv.reader\<close> yields with that delimiter, a blank line being the record \<open>[]\<close>.
  The file without any line is the one without records. Quoting and line
  ends, which are the library's, are not modelled: a file that
  \<open>write_csv_table\<close> wrote holds the records that were written.
\<close>

record csv_file =
  file_delimiter :: char
  records :: "string list list"

datatype error =
    ValueError_empty
  | ValueError_no_header
  | ValueError_missing_columns "string list"
  | AttributeError
  | FileNotFoundError
  | JSONDecodeError
  | TypeError

definition is_ValueError :: "error \<Rightarrow> bool" where
  "is_ValueError e \<longleftrightarrow>
     (case e of ValueError_empty \<Rightarrow> True | ValueError_no_header \<Rightarrow> True
      | ValueError_missing_columns _ \<Rightarrow> True | _ \<Rightarrow> False)"

text \<open>
  One row of \<open>DictReader\<close>: \<open>dict(zip(fieldnames, row))\<close>, the surplus fields under
  \<open>None\<close>, and the missing ones set to \<open>None\<close>, which \<open>read_csv_table\<close> turns
  into the empty string.
\<close>

definition dict_row :: "string list \<Rightarrow> string list \<Rightarrow> row" where
  "dict_row fieldnames vals =
     \<lparr>cells =
        fold (\<lambda>k d. AList.update k [] d) (drop (length vals) fieldnames)
          (fold (\<lambda>kv d. AList.update (fst kv) (snd kv) d) (zip fieldnames vals) []),
      rest =
        (if length fieldnames < length vals then Some (drop (length fieldnames) vals)
         else None)\<rparr>"

definition read_csv_table :: "csv_file \<Rightarrow> error + CsvTable" where
  "read_csv_table f =
     (if records f = [] then Inl ValueError_empty
      else
        let hdr = hd (records f);
            rs = map (dict_row hdr) (filter (\<lambda>r. r \<noteq> []) (tl (records f)))
        in if hdr = [] then Inl ValueError_no_header
           else Inr \<lparr>header = hdr, rows = rs, delimiter = file_delimiter f\<rparr>)"

text \<open>
  \<open>write_csv_table\<close>: the header, then for every row the values
  \<open>row.get(k, "")\<close> of the header's columns. The fallback file that is
  written when the table file cannot be replaced is not modelled.
\<close>

definition write_csv_table :: "CsvTable \<Rightarrow> csv_file" where
  "write_csv_table t =
     \<lparr>file_delimiter = delimiter t,
      records = header t # map (\<lambda>r. map (row_get r) (header t)) (rows t)\<rparr>"

definition require_columns :: "CsvTable \<Rightarrow> string list \<Rightarrow> error + unit" where
  "require_columns t required =
     (let missing = filter (\<lambda>c. c \<notin> set (header t)) required in
      if missing \<noteq> [] then Inl (ValueError_missing_columns missing) else Inr ())"

definition REQUIRED_COLUMNS :: "string list" where
  "REQUIRED_COLUMNS =
     [DATEKEY_COL, CATEGORY_COL, TAGS_COL, ANSWER_CANONICAL_COL, ANSWER_ALIASES_COL,
      SOLUTION_EXPLANATION_COL, VERSION_COL]"

definition hint_columns :: "(string \<times> string) list" where
  "hint_columns =
     map (\<lambda>i. (''hint'' @ str_int (int i), ''hint'' @ str_int (int i) @ ''Explanation''))
       [1..<6]"

text \<open>
  \<open>_row_has_any_content\<close> walks \<open>row.values()\<close> in order and returns at the
  first value with content. The values under the column names come first; the
  list under \<open>None\<close> is last, it is not empty, and \<open>(v or "").strip()\<close> on it
  raises \<open>AttributeError\<close>.
\<close>

definition row_has_any_content :: "row \<Rightarrow> error + bool" where
  "row_has_any_content r =
     (if \<exists>v \<in> set (map snd (cells r)). strip v \<noteq> [] then Inr True
      else (case rest r of
              None \<Rightarrow> Inr False
            | Some extra \<Rightarrow> if extra = [] then Inr False else Inl AttributeError))"

section \<open>Puzzle records and the content hash\<close>

definition build_hints :: "row \<Rightarrow> json list" where
  "build_hints r =
     concat (map (\<lambda>(idx, hint_col, expl_col).
        let hint_text = strip_wrapping_quotes (row_get r hint_col) in
        if hint_text = [] then []
        else
          let expl = strip_wrapping_quotes (row_get r expl_col) in
          [JObj ([(''id'', JStr (''h'' @ str_int (int idx + 1))),
                  (''index'', JInt (int idx)),
                  (''text'', JStr hint_text)]
                 @ (if expl \<noteq> [] then [(''explanationText'', JStr expl)] else []))])
       (enumerate 0 hint_columns))"

definition build_puzzle_object :: "row \<Rightarrow> int \<Rightarrow> (string \<times> json) list" where
  "build_puzzle_object r ver =
     (let date_key = strip_wrapping_quotes (row_get r DATEKEY_COL);
          category = strip_wrapping_quotes (row_get r CATEGORY_COL);
          tags = split_semicolon_list (row_get r TAGS_COL);
          answer_canonical = strip_wrapping_quotes (row_get r ANSWER_CANONICAL_COL);
          answer_aliases = split_comma_list (row_get r ANSWER_ALIASES_COL);
          solution_explanation = strip_wrapping_quotes (row_get r SOLUTION_EXPLANATION_COL);
          hints = build_hints r
      in [(''id'', JStr date_key),
          (''dateKey'', JStr date_key),
          (''version'', JInt ver),
          (''category'', JStr category),
          (''tags'', JArr (map JStr tags)),
          (''answerCanonical'', JStr answer_canonical),
          (''answerAliases'', JArr (map JStr answer_aliases)),
          (''hints'', JArr hints),
          (''solutionExplanation'', JStr solution_explanation)])"

text \<open>
  The sort key \<open>h.get("index", 0)\<close> of \<open>compute_content_hash\<close>. The hints of a
  built record are dicts with an integer \<open>index\<close>; on any other value the key
  is 0 here.
\<close>

definition hint_index :: "json \<Rightarrow> int" where
  "hint_index h =
     (case h of
        JObj kvs \<Rightarrow> (case map_of kvs ''index'' of Some (JInt i) \<Rightarrow> i | _ \<Rightarrow> 0)
      | _ \<Rightarrow> 0)"

text \<open>
  \<open>compute_content_hash\<close>. The digest \<open>_sha256_text\<close>, that is
  \<open>hashlib.sha256(text.encode("utf-8")).hexdigest()\<close>, is the parameter
  \<open>sha\<close>. \<open>canonical_text\<close> is the text that is hashed.
\<close>

definition canonical_text :: "(string \<times> json) list \<Rightarrow> string" where
  "canonical_text puzzle_obj =
     (let content = AList.delete ''version'' puzzle_obj;
          content =
            (case map_of content ''hints'' of
               Some (JArr hs) \<Rightarrow> AList.update ''hints'' (JArr (sort_key hint_index hs)) content
             | _ \<Rightarrow> content)
      in dumps_compact (JObj content))"

definition compute_content_hash :: "(string \<Rightarrow> string) \<Rightarrow> (string \<times> json) list \<Rightarrow> string" where
  "compute_content_hash sha puzzle_obj = sha (canonical_text puzzle_obj)"

text \<open>What is known of the digest: 64 lower-case hexadecimal digits.\<close>

definition hex_digest :: "(string \<Rightarrow> string) \<Rightarrow> bool" where
  "hex_digest sha \<longleftrightarrow> (\<forall>s. length (sha s) = 64 \<and> set (sha s) \<subseteq> set ''0123456789abcdef'')"

text \<open>The text of an artifact: \<open>json.dumps(puzzle_obj, ensure_ascii=False, indent=2) + "\n"\<close>.\<close>

definition puzzle_text :: "(string \<times> json) list \<Rightarrow> string" where
  "puzzle_text puzzle_obj = dumps_indent 0 (JObj puzzle_obj) @ [newline]"

section \<open>The manifest\<close>

text \<open>
  The manifest file is kept as what \<open>json.loads\<close> makes of it: absent,
  not JSON, or a JSON value. \<open>save_manifest\<close> stores the value it is given.
\<close>

datatype manifest_file = Missing | Unparseable | Doc json

definition load_manifest :: "manifest_file \<Rightarrow> error + json" where
  "load_manifest f =
     (case f of
        Missing \<Rightarrow> Inl FileNotFoundError
      | Unparseable \<Rightarrow> Inl JSONDecodeError
      | Doc j \<Rightarrow> Inr j)"

definition is_dict :: "json option \<Rightarrow> bool" where
  "is_dict v \<longleftrightarrow> (case v of Some (JObj _) \<Rightarrow> True | _ \<Rightarrow> False)"

text \<open>
  \<open>ensure_manifest_shape\<close>. On a value that is not a dict, \<open>"puzzles" not in manifest\<close> or the
  subscript that follows raises \<open>TypeError\<close>.
\<close>

definition ensure_manifest_shape :: "json \<Rightarrow> error + (string \<times> json) list" where
  "ensure_manifest_shape j =
     (case j of
        JObj m \<Rightarrow>
          let m1 = (if \<not> is_dict (map_of m ''puzzles'') then AList.update ''puzzles'' (JObj []) m
                    else m);
              m2 = (if \<not> is_dict (map_of m1 ''meta'') then AList.update ''meta'' (JObj []) m1
                    else m1)
          in Inr m2
      | _ \<Rightarrow> Inl TypeError)"

definition dict_of :: "json option \<Rightarrow> (string \<times> json) list" where
  "dict_of v = (case v of Some (JObj kvs) \<Rightarrow> kvs | _ \<Rightarrow> [])"

subsection \<open>The clock\<close>

text \<open>
  \<open>_utc_now_iso_z\<close> on the reading \<open>dt.datetime.now(dt.timezone.utc)\<close> of the
  clock: \<open>replace(microsecond=0)\<close>, \<open>isoformat()\<close> of an aware UTC time, and
  the offset \<open>+00:00\<close> replaced by \<open>Z\<close>.
\<close>

record datetime =
  year :: nat
  month :: nat
  day :: nat
  hour :: nat
  minute :: nat
  second :: nat
  microsecond :: nat

definition isoformat :: "datetime \<Rightarrow> string" where
  "isoformat d =
     zfill 4 (str_nat (year d)) @ ''-'' @ zfill 2 (str_nat (month d)) @ ''-''
     @ zfill 2 (str_nat (day d)) @ ''T'' @ zfill 2 (str_nat (hour d)) @ '':''
     @ zfill 2 (str_nat (minute d)) @ '':'' @ zfill 2 (str_nat (second d))
     @ (if microsecond d \<noteq> 0 then ''.'' @ zfill 6 (str_nat (microsecond d)) else [])
     @ ''+00:00''"

definition utc_now_iso_z :: "datetime \<Rightarrow> string" where
  "utc_now_iso_z now = replace ''+00:00'' ''Z'' (isoformat (now\<lparr>microsecond := 0\<rparr>))"

section \<open>The run\<close>

record RowResult =
  date_key :: string
  version :: int
  created :: bool
  refreshed :: bool
  bumped :: bool
  reason :: string

text \<open>
  The files a run reads and writes: the table, the manifest, and the puzzles
  directory as a map from file name to text. Failures of the file system
  itself are outside the model.
\<close>

record files =
  csv :: csv_file
  puzzles :: "string \<rightharpoonup> string"
  manifest :: manifest_file

text \<open>
  The variables of the loop of \<open>generate\<close>: the counters and flags, the dict
  \<open>manifest["puzzles"]\<close>, the puzzles directory, and the rows of the table
  that the loop has been through, as it leaves them.
\<close>

record loop_state =
  results :: "RowResult list"
  skipped_blank_rows :: nat
  skipped_missing_date :: nat
  puzzles_manifest :: "(string \<times> json) list"
  any_csv_updates :: bool
  any_manifest_updates :: bool
  puzzles_dir :: "string \<rightharpoonup> string"
  table_rows :: "row list"

definition puzzle_filename :: "string \<Rightarrow> int \<Rightarrow> string" where
  "puzzle_filename dk ver = dk @ ''.v'' @ str_int ver @ ''.json''"

definition manifest_entry :: "string \<Rightarrow> int \<Rightarrow> string \<Rightarrow> json" where
  "manifest_entry dk ver sha256 =
     JObj [(''version'', JInt ver),
           (''url'', JStr (''/puzzles/'' @ puzzle_filename dk ver)),
           (''sha256'', JStr sha256)]"

text \<open>
  \<open>existing_manifest_entry != new_manifest_entry\<close>, where
  \<open>puzzles_manifest.get(date_key)\<close> is \<open>None\<close> for a key that is absent.
\<close>

definition entry_differs :: "json option \<Rightarrow> json \<Rightarrow> bool" where
  "entry_differs existing new_entry =
     (case existing of None \<Rightarrow> True | Some e \<Rightarrow> \<not> py_eq e new_entry)"

text \<open>The body of the loop over \<open>table.rows\<close>, on one row.\<close>

definition loop_body :: "(string \<Rightarrow> string) \<Rightarrow> bool \<Rightarrow> loop_state \<Rightarrow> row \<Rightarrow> error + loop_state" where
  "loop_body sha dry_run st r =
     (case row_has_any_content r of
        Inl e \<Rightarrow> Inl e
      | Inr False \<Rightarrow>
          Inr (st\<lparr>skipped_blank_rows := skipped_blank_rows st + 1,
                  table_rows := table_rows st @ [r]\<rparr>)
      | Inr True \<Rightarrow>
          let dk = strip_wrapping_quotes (row_get r DATEKEY_COL) in
          if dk = [] then
            Inr (st\<lparr>skipped_missing_date := skipped_missing_date st + 1,
                    table_rows := table_rows st @ [r]\<rparr>)
          else
            let current_version = parse_int (row_get r VERSION_COL) 1;
                stored_hash = strip_wrapping_quotes (row_get r CONTENT_HASH_COL);
                puzzle_obj = build_puzzle_object r current_version;
                computed_hash = compute_content_hash sha puzzle_obj;
                bump = (stored_hash \<noteq> [] \<and> stored_hash \<noteq> computed_hash);
                current_version = (if bump then current_version + 1 else current_version);
                puzzle_obj = (if bump then build_puzzle_object r current_version else puzzle_obj);
                csv_updates = (any_csv_updates st \<or> stored_hash = [] \<or> bump);
                r1 = (if bump then row_set r VERSION_COL (str_int current_version) else r);
                r2 = row_set r1 CONTENT_HASH_COL computed_hash;
                filename = puzzle_filename dk current_version;
                existed_before = (puzzles_dir st filename \<noteq> None);
                sha256 = sha (puzzle_text puzzle_obj);
                dir = (if \<not> dry_run then (puzzles_dir st)(filename \<mapsto> puzzle_text puzzle_obj)
                       else puzzles_dir st);
                new_manifest_entry = manifest_entry dk current_version sha256;
                existing_manifest_entry = map_of (puzzles_manifest st) dk;
                manifest_updates =
                  (any_manifest_updates st
                   \<or> entry_differs existing_manifest_entry new_manifest_entry);
                is_created = (if dry_run then \<not> existed_before
                              else (\<not> existed_before \<and> \<not> dry_run));
                is_refreshed = (if dry_run then existed_before
                                else (existed_before \<and> \<not> dry_run));
                why = (if bump then ''content changed -> version bumped''
                       else if stored_hash = [] then ''initialized contentHash''
                       else ''no content change'')
            in Inr (st\<lparr>results := results st @
                         [\<lparr>date_key = dk, version = current_version, created = is_created,
                           refreshed = is_refreshed, bumped = bump, reason = why\<rparr>],
                       puzzles_manifest :=
                         AList.update dk new_manifest_entry (puzzles_manifest st),
                       any_csv_updates := csv_updates,
                       any_manifest_updates := manifest_updates,
                       puzzles_dir := dir,
                       table_rows := table_rows st @ [r2]\<rparr>))"

text \<open>
  The loop: the rows in order; an exception ends it, and what was written
  before stays written.
\<close>

fun run_rows :: "(string \<Rightarrow> string) \<Rightarrow> bool \<Rightarrow> loop_state \<Rightarrow> row list \<Rightarrow> loop_state \<times> error option" where
  "run_rows sha dry_run st [] = (st, None)"
| "run_rows sha dry_run st (r # rs) =
     (case loop_body sha dry_run st r of
        Inl e \<Rightarrow> (st, Some e)
      | Inr st' \<Rightarrow> run_rows sha dry_run st' rs)"

text \<open>
  What a run that completes leaves in memory and prints from: the row
  results, the counters, the two flags behind the lines \<open>CSV updated\<close> / \<open>CSV unchanged\<close> and
  \<open>Manifest updated\<close> / \<open>Manifest unchanged\<close>, the manifest and the table.
\<close>

record report =
  row_results :: "RowResult list"
  blank_rows :: nat
  missing_date_rows :: nat
  csv_updated :: bool
  manifest_updated :: bool
  manifest_in_memory :: "(string \<times> json) list"
  table_in_memory :: CsvTable

definition add_content_hash_column :: "CsvTable \<Rightarrow> CsvTable" where
  "add_content_hash_column t =
     (if CONTENT_HASH_COL \<notin> set (header t) then t\<lparr>header := header t @ [CONTENT_HASH_COL]\<rparr>
      else t)"

definition initial_loop_state :: "(string \<times> json) list \<Rightarrow> (string \<rightharpoonup> string) \<Rightarrow> loop_state" where
  "initial_loop_state pm dir =
     \<lparr>results = [], skipped_blank_rows = 0, skipped_missing_date = 0,
      puzzles_manifest = pm, any_csv_updates = False, any_manifest_updates = False,
      puzzles_dir = dir, table_rows = []\<rparr>"

text \<open>
  The end of \<open>generate\<close>, after the loop: the time stamp, \<open>save_manifest\<close> and
  \<open>write_csv_table\<close>. \<open>puzzles_manifest\<close> is the dict \<open>manifest["puzzles"]\<close>
  itself, so the manifest holds what the loop stored in it.
\<close>

definition finish :: "datetime \<Rightarrow> bool \<Rightarrow> files \<Rightarrow> CsvTable \<Rightarrow> (string \<times> json) list \<Rightarrow> loop_state \<Rightarrow> files \<times> report" where
  "finish now dry_run fs t m st =
     (let m1 = AList.update ''puzzles'' (JObj (puzzles_manifest st)) m;
          m2 = (if any_manifest_updates st
                then AList.update ''meta''
                       (JObj (AList.update ''generatedAtUtc'' (JStr (utc_now_iso_z now))
                                (dict_of (map_of m1 ''meta'')))) m1
                else m1);
          t1 = t\<lparr>rows := table_rows st\<rparr>;
          fs1 = fs\<lparr>puzzles := puzzles_dir st\<rparr>;
          fs2 = (if \<not> dry_run \<and> any_manifest_updates st then fs1\<lparr>manifest := Doc (JObj m2)\<rparr>
                 else fs1);
          fs3 = (if \<not> dry_run \<and> any_csv_updates st then fs2\<lparr>csv := write_csv_table t1\<rparr>
                 else fs2)
      in (fs3,
          \<lparr>row_results = results st, blank_rows = skipped_blank_rows st,
           missing_date_rows = skipped_missing_date st, csv_updated = any_csv_updates st,
           manifest_updated = any_manifest_updates st, manifest_in_memory = m2,
           table_in_memory = t1\<rparr>))"

text \<open>
  \<open>generate\<close>: the files after the run, and the exception that ended it or
  the report of the run.
\<close>

definition generate :: "(string \<Rightarrow> string) \<Rightarrow> datetime \<Rightarrow> bool \<Rightarrow> files \<Rightarrow> files \<times> (error + report)" where
  "generate sha now dry_run fs =
     (case read_csv_table (csv fs) of
        Inl e \<Rightarrow> (fs, Inl e)
      | Inr t0 \<Rightarrow>
     (case require_columns t0 REQUIRED_COLUMNS of
        Inl e \<Rightarrow> (fs, Inl e)
      | Inr _ \<Rightarrow>
     let t = add_content_hash_column t0 in
     (case load_manifest (manifest fs) of
        Inl e \<Rightarrow> (fs, Inl e)
      | Inr j \<Rightarrow>
     (case ensure_manifest_shape j of
        Inl e \<Rightarrow> (fs, Inl e)
      | Inr m \<Rightarrow>
     (case run_rows sha dry_run
             (initial_loop_state (dict_of (map_of m ''puzzles'')) (puzzles fs)) (rows t) of
        (st, Some e) \<Rightarrow> (fs\<lparr>puzzles := puzzles_dir st\<rparr>, Inl e)
      | (st, None) \<Rightarrow>
          (case finish now dry_run fs t m st of (fs', rep) \<Rightarrow> (fs', Inr rep)))))))"

section \<open>Auxiliary notions of the proofs\<close>

text \<open>The three blocks of \<open>_strip_wrapping_quotes\<close>, named for the proofs.\<close>

definition wrapped :: "string \<Rightarrow> bool" where
  "wrapped s \<longleftrightarrow> 2 \<le> length s \<and> hd s = last s \<and> hd s \<in> set [dquote, squote]"

definition recover_trailing :: "string \<Rightarrow> string" where
  "recover_trailing s =
     (if endswith_squote s \<and> \<not> startswith_squote s then
        (if 2 \<le> length s \<and> s ! (length s - 2) \<in> set ''.!?'' then rstrip (butlast s)
         else if count_list s squote = 1 then rstrip (butlast s)
         else s)
      else s)"

definition recover_leading :: "string \<Rightarrow> string" where
  "recover_leading s1 =
     (if startswith_squote s1 \<and> \<not> endswith_squote s1 then
        (if count_list s1 squote = 1 then lstrip (tl s1) else s1)
      else s1)"

definition terminal_or_only :: "string \<Rightarrow> bool" where
  "terminal_or_only s \<longleftrightarrow>
     s ! (length s - 2) \<in> {CHR ''.'', CHR ''!'', CHR ''?''} \<or> count_list s squote = 1"

text \<open>The three ways in which \<open>encode_basestring\<close> writes a character.\<close>

definition two_char_escape :: "char \<Rightarrow> bool" where
  "two_char_escape c \<longleftrightarrow> c \<in> {dquote, bslash, CHR 0x08, CHR 0x0C, CHR 0x0A, CHR 0x0D, CHR 0x09}"

definition escape_tag :: "char \<Rightarrow> char" where
  "escape_tag c =
     (if c = dquote then dquote else if c = bslash then bslash
      else if c = CHR 0x08 then CHR ''b'' else if c = CHR 0x0C then CHR ''f''
      else if c = CHR 0x0A then CHR ''n'' else if c = CHR 0x0D then CHR ''r'' else CHR ''t'')"

text \<open>
  An encoder is self-delimiting on a set when the text it writes for a value
  of the set tells where it ends: no two values have texts of which one
  continues into the other.
\<close>

definition self_delimiting_on :: "'a set \<Rightarrow> ('a \<Rightarrow> string) \<Rightarrow> bool" where
  "self_delimiting_on A f \<longleftrightarrow>
     (\<forall>x \<in> A. \<forall>y \<in> A. \<forall>r s. f x @ r = f y @ s \<longrightarrow> x = y \<and> r = s)"

definition json_array :: "string list \<Rightarrow> string" where
  "json_array items = ''['' @ join '','' items @ '']''"

text \<open>The hint that \<open>build_puzzle_object\<close> makes for a slot with text.\<close>

definition hint_json :: "nat \<Rightarrow> string \<Rightarrow> string \<Rightarrow> json" where
  "hint_json idx hint_text expl =
     JObj ([(''id'', JStr (''h'' @ str_int (int idx + 1))),
            (''index'', JInt (int idx)),
            (''text'', JStr hint_text)]
           @ (if expl \<noteq> [] then [(''explanationText'', JStr expl)] else []))"

definition built_hints :: "json set" where
  "built_hints = {h. \<exists>idx hint_text expl. h = hint_json idx hint_text expl}"

text \<open>
  The table file can be read and has what \<open>generate\<close> requires of it: it is
  not empty, a header row is detected, and every required column is in the
  header.
\<close>

definition table_accepted :: "csv_file \<Rightarrow> bool" where
  "table_accepted f \<longleftrightarrow>
     records f \<noteq> [] \<and> hd (records f) \<noteq> [] \<and> set REQUIRED_COLUMNS \<subseteq> set (hd (records f))"

text \<open>
  What \<open>generate\<close> holds when it enters its loop on an accepted table and a
  manifest that is a JSON object: the table as read, with the \<open>contentHash\<close>
  column, and the manifest with its two members in shape.
\<close>

definition loaded_table :: "csv_file \<Rightarrow> CsvTable" where
  "loaded_table f =
     add_content_hash_column
       \<lparr>header = hd (records f),
        rows = map (dict_row (hd (records f))) (filter (\<lambda>r. r \<noteq> []) (tl (records f))),
        delimiter = file_delimiter f\<rparr>"

definition shaped :: "(string \<times> json) list \<Rightarrow> (string \<times> json) list" where
  "shaped m =
     (let m1 = (if \<not> is_dict (map_of m ''puzzles'') then AList.update ''puzzles'' (JObj []) m
                else m)
      in if \<not> is_dict (map_of m1 ''meta'') then AList.update ''meta'' (JObj []) m1 else m1)"

definition loop_start :: "files \<Rightarrow> (string \<times> json) list \<Rightarrow> loop_state" where
  "loop_start fs m = initial_loop_state (dict_of (map_of (shaped m) ''puzzles'')) (puzzles fs)"

text \<open>
  What the body of the loop computes from a row that it processes, named
  after the variables of \<open>generate\<close>.
\<close>

definition day_key :: "row \<Rightarrow> string" where
  "day_key r = strip_wrapping_quotes (row_get r DATEKEY_COL)"

definition is_processed :: "row \<Rightarrow> bool" where
  "is_processed r \<longleftrightarrow> row_has_any_content r = Inr True \<and> day_key r \<noteq> []"

definition is_skipped :: "row \<Rightarrow> bool" where
  "is_skipped r \<longleftrightarrow>
     row_has_any_content r = Inr False \<or> (row_has_any_content r = Inr True \<and> day_key r = [])"

definition parsed_version :: "row \<Rightarrow> int" where
  "parsed_version r = parse_int (row_get r VERSION_COL) 1"

definition stored_hash :: "row \<Rightarrow> string" where
  "stored_hash r = strip_wrapping_quotes (row_get r CONTENT_HASH_COL)"

definition computed_hash :: "(string \<Rightarrow> string) \<Rightarrow> row \<Rightarrow> string" where
  "computed_hash sha r = compute_content_hash sha (build_puzzle_object r (parsed_version r))"

definition needs_bump :: "(string \<Rightarrow> string) \<Rightarrow> row \<Rightarrow> bool" where
  "needs_bump sha r \<longleftrightarrow> stored_hash r \<noteq> [] \<and> stored_hash r \<noteq> computed_hash sha r"

definition final_version :: "(string \<Rightarrow> string) \<Rightarrow> row \<Rightarrow> int" where
  "final_version sha r = (if needs_bump sha r then parsed_version r + 1 else parsed_version r)"

definition artifact_name :: "(string \<Rightarrow> string) \<Rightarrow> row \<Rightarrow> string" where
  "artifact_name sha r = puzzle_filename (day_key r) (final_version sha r)"

definition artifact_text :: "(string \<Rightarrow> string) \<Rightarrow> row \<Rightarrow> string" where
  "artifact_text sha r = puzzle_text (build_puzzle_object r (final_version sha r))"

definition new_entry :: "(string \<Rightarrow> string) \<Rightarrow> row \<Rightarrow> json" where
  "new_entry sha r = manifest_entry (day_key r) (final_version sha r) (sha (artifact_text sha r))"

definition updated_row :: "(string \<Rightarrow> string) \<Rightarrow> row \<Rightarrow> row" where
  "updated_row sha r =
     row_set (if needs_bump sha r then row_set r VERSION_COL (str_int (final_version sha r)) else r)
       CONTENT_HASH_COL (computed_hash sha r)"

definition row_result :: "(string \<Rightarrow> string) \<Rightarrow> bool \<Rightarrow> row \<Rightarrow> RowResult" where
  "row_result sha existed r =
     \<lparr>date_key = day_key r, version = final_version sha r, created = (\<not> existed),
      refreshed = existed, bumped = needs_bump sha r,
      reason = (if needs_bump sha r then ''content changed -> version bumped''
                else if stored_hash r = [] then ''initialized contentHash''
                else ''no content change'')\<rparr>"

text \<open>The rows of a table that a run processes, and their day keys.\<close>

definition processed_rows :: "row list \<Rightarrow> row list" where
  "processed_rows rs = filter is_processed rs"

text \<open>
  The entries of \<open>manifest["puzzles"]\<close> after the loop has been through the
  rows \<open>rs\<close>, starting from the entries \<open>pm\<close>.
\<close>

definition upserted :: "(string \<Rightarrow> string) \<Rightarrow> (string \<times> json) list \<Rightarrow> row list \<Rightarrow> (string \<times> json) list" where
  "upserted sha pm rs =
     foldl (\<lambda>acc r. AList.update (day_key r) (new_entry sha r) acc) pm (processed_rows rs)"

text \<open>
  Some entry changed during the loop over \<open>rs\<close>: for some processed row the new
  entry differs, by Python's equality, from the entry that its day key had
  when the row was reached.
\<close>

definition entry_changed :: "(string \<Rightarrow> string) \<Rightarrow> (string \<times> json) list \<Rightarrow> row list \<Rightarrow> bool" where
  "entry_changed sha pm rs \<longleftrightarrow>
     (\<exists>i < length rs. is_processed (rs ! i) \<and>
        entry_differs (map_of (upserted sha pm (take i rs)) (day_key (rs ! i)))
          (new_entry sha (rs ! i)))"


text \<open>
  The loop as a fold: \<open>advance\<close> is the body on a row on which it does not
  raise, and the loop stops before the first row on which it does.
\<close>

definition raises :: "row \<Rightarrow> bool" where
  "raises r \<longleftrightarrow> row_has_any_content r = Inl AttributeError"

definition advance :: "(string \<Rightarrow> string) \<Rightarrow> bool \<Rightarrow> loop_state \<Rightarrow> row \<Rightarrow> loop_state" where
  "advance sha d st r = (case loop_body sha d st r of Inr st' \<Rightarrow> st' | Inl _ \<Rightarrow> st)"

definition rows_reached :: "row list \<Rightarrow> row list" where
  "rows_reached rs = takeWhile (\<lambda>r. \<not> raises r) rs"


text \<open>The state of the loop when it has been through all the rows of the table.\<close>

definition end_state :: "(string \<Rightarrow> string) \<Rightarrow> bool \<Rightarrow> files \<Rightarrow> (string \<times> json) list \<Rightarrow> loop_state" where
  "end_state sha d fs m =
     foldl (advance sha d) (loop_start fs m) (rows (loaded_table (csv fs)))"


text \<open>
  The row results of the loop over \<open>rs\<close> when the puzzles directory is \<open>dir\<close> at
  its start, and the directory after it in a run that writes.
\<close>

fun results_from :: "(string \<Rightarrow> string) \<Rightarrow> bool \<Rightarrow> (string \<rightharpoonup> string) \<Rightarrow> row list \<Rightarrow> RowResult list" where
  "results_from sha d dir [] = []"
| "results_from sha d dir (r # rs) =
     (if is_processed r
      then row_result sha (dir (artifact_name sha r) \<noteq> None) r
           # results_from sha d
               (if d then dir else dir(artifact_name sha r \<mapsto> artifact_text sha r)) rs
      else results_from sha d dir rs)"

definition written :: "(string \<Rightarrow> string) \<Rightarrow> (string \<rightharpoonup> string) \<Rightarrow> row list \<Rightarrow> (string \<rightharpoonup> string)" where
  "written sha dir rs =
     foldl (\<lambda>acc r. acc(artifact_name sha r \<mapsto> artifact_text sha r)) dir (processed_rows rs)"

definition csv_changed :: "(string \<Rightarrow> string) \<Rightarrow> row list \<Rightarrow> bool" where
  "csv_changed sha rs \<longleftrightarrow>
     (\<exists>r \<in> set (processed_rows rs). stored_hash r = [] \<or> needs_bump sha r)"

definition rows_after :: "(string \<Rightarrow> string) \<Rightarrow> row list \<Rightarrow> row list" where
  "rows_after sha rs = map (\<lambda>r. if is_processed r then updated_row sha r else r) rs"

section \<open>Sample inputs\<close>

text \<open>
  Concrete inputs on which the theorems below are instantiated. \<open>sample_sha\<close>
  stands in for the digest where a run has to be evaluated: it has the
  digest's shape (64 hexadecimal digits) and tells texts of odd length from
  texts of even length.
\<close>

definition sample_sha :: "string \<Rightarrow> string" where
  "sample_sha s = replicate 63 (CHR ''0'') @ [if even (length s) then CHR ''0'' else CHR ''1'']"

definition sample_header :: "string list" where
  "sample_header = REQUIRED_COLUMNS @ [''hint1'', ''hint1Explanation'']"

definition sample_fields :: "string list" where
  "sample_fields =
     [''2024-01-01'', ''animals'', ''easy; short'', ''cat'', ''kitty, kitten'', ''It purrs.'',
      ''1'', ''It has whiskers'', ''as cats do'']"

definition sample_row :: row where
  "sample_row = dict_row sample_header sample_fields"

text \<open>The same row with another category.\<close>

definition sample_row_edited :: row where
  "sample_row_edited = row_set sample_row CATEGORY_COL ''pets''"

text \<open>A row whose only field with content is a category of \<open>n\<close> letters.\<close>

definition category_row :: "nat \<Rightarrow> row" where
  "category_row n = \<lparr>cells = [(CATEGORY_COL, replicate n (CHR ''a''))], rest = None\<rparr>"

definition sample_now :: datetime where
  "sample_now = \<lparr>year = 2024, month = 1, day = 2, hour = 3, minute = 4, second = 5,
                  microsecond = 678\<rparr>"


text \<open>
  A table file with the sample row, and one whose only data line has one more
  field than the header, all of them empty.
\<close>

definition sample_csv :: csv_file where
  "sample_csv = \<lparr>file_delimiter = CHR 0x09, records = [sample_header, sample_fields]\<rparr>"

definition surplus_csv :: csv_file where
  "surplus_csv =
     \<lparr>file_delimiter = CHR 0x09,
      records = [REQUIRED_COLUMNS, replicate (length REQUIRED_COLUMNS + 1) []]\<rparr>"

definition sample_files :: files where
  "sample_files = \<lparr>csv = sample_csv, puzzles = Map.empty, manifest = Doc (JObj [])\<rparr>"


text \<open>A table in which the sample line stands twice.\<close>

definition duplicate_files :: files where
  "duplicate_files =
     sample_files\<lparr>csv := \<lparr>file_delimiter = CHR 0x09,
                             records = [sample_header, sample_fields, sample_fields]\<rparr>\<rparr>"

section \<open>Field normalisation: proofs\<close>

lemma rstrip_Nil [simp]: "rstrip [] = []" by (simp add: rstrip_def)

lemma rstrip_hd:
  assumes "s \<noteq> []" "\<not> isspace (hd s)"
  shows "rstrip s \<noteq> [] \<and> hd (rstrip s) = hd s"
proof -
  obtain c cs where s: "s = c # cs" using assms(1) by (cases s) auto
  have "dropWhile isspace (rev cs @ [c]) = dropWhile isspace (rev cs) @ [c] \<or>
        dropWhile isspace (rev cs @ [c]) = [c]"
    using assms(2) s by (simp add: dropWhile_append)
  then show ?thesis
    using s by (auto simp: rstrip_def dropWhile_append hd_append hd_rev last_rev split: if_splits)
qed

lemma strip_hd: "strip t \<noteq> [] \<Longrightarrow> \<not> isspace (hd (strip t))"
  unfolding strip_def
  by (metis hd_dropWhile lstrip_def rstrip_Nil rstrip_hd)

lemma unmatched_trailing_len:
  assumes "s \<noteq> []" "last s = squote" "hd s \<noteq> squote"
  shows "2 \<le> length s"
  using assms by (cases s; cases "tl s") auto

lemma trailing_drop_not_leading:
  assumes ne: "s \<noteq> []" and l: "last s = squote" and h: "hd s \<noteq> squote"
    and nsp: "\<not> isspace (hd s)"
  shows "\<not> startswith_squote (rstrip (butlast s))"
proof -
  have len: "2 \<le> length s" using unmatched_trailing_len [OF ne l h] .
  have bl: "butlast s \<noteq> []" "hd (butlast s) = hd s"
    using len by (cases s; cases "tl s"; auto)+
  show ?thesis
    using rstrip_hd [OF bl(1)] bl(2) nsp h by (simp add: startswith_squote_def)
qed

lemma strip_wrapping_quotes_blocks:
  "strip_wrapping_quotes text =
    (if wrapped (strip text) then strip (butlast (tl (strip text)))
     else recover_leading (recover_trailing (strip text)))"
  unfolding strip_wrapping_quotes_def wrapped_def recover_leading_def recover_trailing_def Let_def
  by (rule refl)

lemma normalize_field_amended_blocks:
  "normalize_field_amended text =
    (if wrapped (strip text) then strip (butlast (tl (strip text)))
     else if strip text \<noteq> [] \<and> last (strip text) = squote \<and> hd (strip text) \<noteq> squote \<and>
             terminal_or_only (strip text)
       then rstrip (butlast (strip text))
     else if strip text \<noteq> [] \<and> hd (strip text) = squote \<and> last (strip text) \<noteq> squote \<and>
             count_list (strip text) squote = 1
       then lstrip (tl (strip text))
     else strip text)"
  unfolding normalize_field_amended_def wrapped_def terminal_or_only_def Let_def
  by simp

lemma recover_trailing_cases:
  "recover_trailing s =
     (if s \<noteq> [] \<and> last s = squote \<and> hd s \<noteq> squote \<and> terminal_or_only s
      then rstrip (butlast s) else s)"
proof (cases "s \<noteq> [] \<and> last s = squote \<and> hd s \<noteq> squote")
  case True
  then have "2 \<le> length s" using unmatched_trailing_len by blast
  with True show ?thesis
    by (simp add: recover_trailing_def terminal_or_only_def endswith_squote_def
        startswith_squote_def)
next
  case False
  then show ?thesis
    by (auto simp: recover_trailing_def endswith_squote_def startswith_squote_def)
qed

lemma recover_leading_cases:
  "recover_leading s =
     (if s \<noteq> [] \<and> hd s = squote \<and> last s \<noteq> squote \<and> count_list s squote = 1
      then lstrip (tl s) else s)"
  by (auto simp: recover_leading_def endswith_squote_def startswith_squote_def)

text \<open>
  Claim C8, as worded, fails: after it has dropped an unmatched single quote
  the program trims the rest again on that side, and it keeps the string
  that is nothing but one single quote. On \<open>abc '\<close> the wording gives \<open>abc\<close>
  followed by a space and the program gives \<open>abc\<close>; on \<open>' abc\<close> the wording
  gives \<open>abc\<close> after a space and the program \<open>abc\<close>; on the single quote alone
  the wording gives the empty string and the program the quote.
\<close>

theorem strip_wrapping_quotes_worded_counterexample:
  "strip_wrapping_quotes (''abc '' @ [squote]) = ''abc''
   \<and> normalize_field_worded (''abc '' @ [squote]) = ''abc ''
   \<and> strip_wrapping_quotes (squote # '' abc'') = ''abc''
   \<and> normalize_field_worded (squote # '' abc'') = '' abc''
   \<and> strip_wrapping_quotes [squote] = [squote]
   \<and> normalize_field_worded [squote] = []"
  by (simp add: strip_wrapping_quotes_def normalize_field_worded_def strip_def lstrip_def
      rstrip_def isspace_def startswith_squote_def endswith_squote_def)

text \<open>
  Claim C8, amended. Field normalisation removes exactly one layer of matching
  wrapping quotes and trims the inside again; otherwise, from a string that
  does not begin with a single quote it drops a trailing single quote that
  follows \<open>.\<close>, \<open>!\<close> or \<open>?\<close> or is the only single quote, and trims the rest
  on the right; from a string that does not end with a single quote it drops
  a leading single quote that is the only single quote, and trims the rest on
  the left; every other string, the one that is a single quote alone among
  them, comes back trimmed and otherwise unchanged. \<open>_strip_wrapping_quotes\<close>
  computes exactly this on every string.
\<close>

theorem strip_wrapping_quotes_amended:
  "strip_wrapping_quotes text = normalize_field_amended text"
proof -
  define s where "s = strip text"
  have nsp: "s \<noteq> [] \<Longrightarrow> \<not> isspace (hd s)" using strip_hd s_def by blast
  show ?thesis
  proof (cases "s \<noteq> [] \<and> last s = squote \<and> hd s \<noteq> squote \<and> terminal_or_only s")
    case True
    then have "\<not> startswith_squote (rstrip (butlast s))"
      using trailing_drop_not_leading nsp by blast
    then have "recover_leading (rstrip (butlast s)) = rstrip (butlast s)"
      by (simp add: recover_leading_def)
    with True show ?thesis
      unfolding strip_wrapping_quotes_blocks normalize_field_amended_blocks s_def [symmetric]
      by (simp add: recover_trailing_cases)
  next
    case False
    then have "recover_trailing s = s"
      by (simp only: recover_trailing_cases if_False)
    with False show ?thesis
      unfolding strip_wrapping_quotes_blocks normalize_field_amended_blocks s_def [symmetric]
      by (simp only: recover_leading_cases if_False)
  qed
qed


theorem strip_wrapping_quotes_amended_witness:
  "normalize_field_amended ([CHR 0x20, squote] @ ''it's done.'' @ [squote, CHR 0x20]) = ''it's done.''
   \<and> normalize_field_amended (''well done!'' @ [squote]) = ''well done!''
   \<and> normalize_field_amended (squote # '' alone'') = ''alone''
   \<and> normalize_field_amended (''it's 5 o'clock'') = ''it's 5 o'clock''"
  unfolding strip_wrapping_quotes_amended [symmetric]
  by (simp add: strip_wrapping_quotes_def strip_def lstrip_def rstrip_def isspace_def
      startswith_squote_def endswith_squote_def)

section \<open>Integers and their decimal text: proofs\<close>

lemma is_digit_iff: "is_digit c \<longleftrightarrow> 48 \<le> (of_char c :: nat) \<and> (of_char c :: nat) \<le> 57"
  by (simp add: is_digit_def less_eq_char_def)

lemma is_digit_digit_char: "d < 10 \<Longrightarrow> is_digit (digit_char d)"
  by (simp add: is_digit_iff digit_char_def)

lemma digit_val_digit_char: "d < 10 \<Longrightarrow> digit_val (digit_char d) = d"
  by (simp add: digit_val_def digit_char_def)

lemma str_nat_digits: "c \<in> set (str_nat n) \<Longrightarrow> is_digit c"
proof (induction n rule: str_nat.induct)
  case (1 n)
  then show ?case
    by (subst (asm) (2) str_nat.simps) (auto simp: is_digit_digit_char split: if_splits)
qed

lemma str_nat_not_Nil: "str_nat n \<noteq> []"
  by (subst str_nat.simps) simp

lemma digits_tail_digits:
  "\<forall>c \<in> set ds. is_digit c \<Longrightarrow>
   digits_tail acc ds = Some (foldl (\<lambda>a c. a * 10 + digit_val c) acc ds)"
  by (induction ds arbitrary: acc) auto

lemma nat_literal_digits:
  "ds \<noteq> [] \<Longrightarrow> \<forall>c \<in> set ds. is_digit c \<Longrightarrow>
   nat_literal ds = Some (foldl (\<lambda>a c. a * 10 + digit_val c) 0 ds)"
  by (cases ds) (auto simp: nat_literal_def digits_tail_digits)

lemma str_nat_value: "foldl (\<lambda>a c. a * 10 + digit_val c) 0 (str_nat n) = n"
proof (induction n rule: str_nat.induct)
  case (1 n)
  show ?case
  proof (cases "n < 10")
    case True
    then show ?thesis by (subst str_nat.simps) (simp add: digit_val_digit_char)
  next
    case False
    then show ?thesis
      using 1 by (subst str_nat.simps) (simp add: digit_val_digit_char)
  qed
qed

lemma nat_literal_str_nat: "nat_literal (str_nat n) = Some n"
  using nat_literal_digits [OF str_nat_not_Nil, of n] str_nat_digits
  by (simp add: str_nat_value)

lemma is_digit_not_space: "is_digit c \<Longrightarrow> \<not> isspace c"
  by (auto simp: is_digit_iff isspace_def)

lemma is_digit_plain: "is_digit c \<Longrightarrow> c \<noteq> squote \<and> c \<noteq> dquote \<and> c \<noteq> CHR ''-'' \<and> c \<noteq> CHR ''+''"
  by (auto simp: is_digit_iff)

lemma str_int_chars: "c \<in> set (str_int i) \<Longrightarrow> is_digit c \<or> c = CHR ''-''"
  by (auto simp: str_int_def dest: str_nat_digits split: if_splits)

lemma str_int_not_Nil: "str_int i \<noteq> []"
  by (simp add: str_int_def str_nat_not_Nil)

lemma strip_no_space_ends:
  assumes "s \<noteq> []" "\<not> isspace (hd s)" "\<not> isspace (last s)"
  shows "strip s = s"
proof -
  have "lstrip s = s" using assms(1,2) by (cases s) (auto simp: lstrip_def)
  moreover have "rstrip s = s"
    using assms(1,3) by (cases s rule: rev_cases) (auto simp: rstrip_def)
  ultimately show ?thesis by (simp add: strip_def)
qed

lemma strip_Nil [simp]: "strip [] = []"
  by (simp add: strip_def lstrip_def rstrip_def)

lemma plain_chars_strip:
  assumes "\<forall>c \<in> set s. \<not> isspace c"
  shows "strip s = s"
proof (cases "s = []")
  case False
  then have "hd s \<in> set s" "last s \<in> set s" by auto
  then show ?thesis using assms False strip_no_space_ends by blast
qed simp

lemma plain_chars_normalised:
  assumes "\<forall>c \<in> set s. \<not> isspace c \<and> c \<noteq> squote \<and> c \<noteq> dquote"
  shows "strip_wrapping_quotes s = s"
proof -
  have s: "strip s = s" using assms plain_chars_strip by blast
  have h: "hd s \<noteq> squote \<and> hd s \<noteq> dquote \<and> last s \<noteq> squote" if "s \<noteq> []"
  proof -
    have "hd s \<in> set s" "last s \<in> set s" using that by simp_all
    then show ?thesis using assms by metis
  qed
  have w: "\<not> wrapped s"
  proof (cases "s = []")
    case True
    then show ?thesis by (simp add: wrapped_def)
  next
    case False
    then show ?thesis using h [OF False] by (simp add: wrapped_def)
  qed
  have t: "recover_trailing s = s"
    by (cases "s = []") (use h in \<open>simp_all add: recover_trailing_cases\<close>)
  have l: "recover_leading s = s"
    by (cases "s = []") (use h in \<open>simp_all add: recover_leading_cases\<close>)
  show ?thesis
    by (simp only: strip_wrapping_quotes_blocks s w t l if_False)
qed

lemma minus_not_space: "\<not> isspace (CHR ''-'')"
  by (simp add: isspace_def)

lemma str_int_plain:
  assumes "c \<in> set (str_int i)"
  shows "\<not> isspace c \<and> c \<noteq> squote \<and> c \<noteq> dquote"
proof -
  from assms have "is_digit c \<or> c = CHR ''-''" by (rule str_int_chars)
  then show ?thesis
  proof
    assume "is_digit c"
    then show ?thesis using is_digit_not_space is_digit_plain by blast
  next
    assume "c = CHR ''-''"
    then show ?thesis using minus_not_space by simp
  qed
qed

lemma str_int_normalised: "strip_wrapping_quotes (str_int i) = str_int i"
  by (rule plain_chars_normalised) (use str_int_plain in blast)

lemma str_int_strip: "strip (str_int i) = str_int i"
  by (rule plain_chars_strip) (use str_int_plain in blast)

lemma py_int_str_int: "py_int (str_int i) = Some i"
proof (cases "i < 0")
  case True
  then show ?thesis
    unfolding py_int_def str_int_strip
    by (simp add: str_int_def nat_literal_str_nat)
next
  case False
  obtain c cs where cs: "str_nat (nat i) = c # cs"
    using str_nat_not_Nil by (cases "str_nat (nat i)") auto
  then have "is_digit c" using str_nat_digits [of c "nat i"] by simp
  then have "c \<noteq> CHR ''-''" "c \<noteq> CHR ''+''" using is_digit_plain by blast+
  moreover have "nat_literal (c # cs) = Some (nat i)"
    using nat_literal_str_nat [of "nat i"] cs by simp
  ultimately show ?thesis
    unfolding py_int_def str_int_strip
    using False cs by (simp add: str_int_def)
qed

lemma str_int_inj: "str_int i = str_int j \<Longrightarrow> i = j"
  by (metis py_int_str_int option.inject)

lemma parse_int_str_int: "parse_int (str_int i) d = i"
  by (simp add: parse_int_def str_int_normalised py_int_str_int str_int_not_Nil)

section \<open>The JSON encoders: proofs\<close>

lemma of_char_hex_digit:
  "d < 16 \<Longrightarrow> (of_char (hex_digit d) :: nat) = (if d < 10 then 48 + d else 87 + d)"
  by (simp add: hex_digit_def)

lemma hex_digit_inj: "a < 16 \<Longrightarrow> b < 16 \<Longrightarrow> hex_digit a = hex_digit b \<Longrightarrow> a = b"
proof -
  assume a: "a < 16" and b: "b < 16" and e: "hex_digit a = hex_digit b"
  have "(of_char (hex_digit a) :: nat) = of_char (hex_digit b)" using e by simp
  then show "a = b"
    using a b by (simp add: of_char_hex_digit split: if_splits)
qed

lemma escape_two: "two_char_escape c \<Longrightarrow> escape_char c = [bslash, escape_tag c]"
  by (auto simp: two_char_escape_def escape_char_def escape_tag_def)

lemma escape_tag_inj:
  "two_char_escape c \<Longrightarrow> two_char_escape d \<Longrightarrow> escape_tag c = escape_tag d \<Longrightarrow> c = d"
  by (auto simp: two_char_escape_def escape_tag_def split: if_splits)

lemma escape_tag_not_u: "two_char_escape c \<Longrightarrow> escape_tag c \<noteq> CHR ''u''"
  by (auto simp: two_char_escape_def escape_tag_def)

lemma escape_ctrl:
  "\<not> two_char_escape c \<Longrightarrow> (of_char c :: nat) < 0x20 \<Longrightarrow>
   escape_char c = [bslash, CHR ''u'', CHR ''0'', CHR ''0'',
         hex_digit (of_char c div 16), hex_digit (of_char c mod 16)]"
  by (simp add: two_char_escape_def escape_char_def)

lemma escape_plain:
  "\<not> two_char_escape c \<Longrightarrow> \<not> (of_char c :: nat) < 0x20 \<Longrightarrow> escape_char c = [c]"
  by (simp add: two_char_escape_def escape_char_def)

lemma plain_not_special:
  "\<not> two_char_escape c \<Longrightarrow> c \<noteq> bslash \<and> c \<noteq> dquote"
  by (auto simp: two_char_escape_def)

lemma escape_char_hd: "escape_char c \<noteq> [] \<and> hd (escape_char c) \<noteq> dquote"
  by (cases "two_char_escape c"; cases "(of_char c :: nat) < 0x20")
     (auto simp: escape_two escape_ctrl escape_plain dest: plain_not_special)

lemma ctrl_inj:
  assumes "(of_char c :: nat) < 0x20" "(of_char d :: nat) < 0x20"
    and "hex_digit (of_char c div 16) = hex_digit (of_char d div 16)"
    and "hex_digit (of_char c mod 16) = hex_digit (of_char d mod 16)"
  shows "c = d"
proof -
  have "(of_char c :: nat) div 16 = of_char d div 16"
    using assms(1,2,3) by (intro hex_digit_inj) auto
  moreover have "(of_char c :: nat) mod 16 = of_char d mod 16"
    using assms(4) by (intro hex_digit_inj) auto
  ultimately have "(of_char c :: nat) = of_char d"
    by (metis div_mult_mod_eq)
  then show ?thesis by simp
qed

lemma escape_char_self_delimiting:
  assumes "escape_char c @ r = escape_char d @ s"
  shows "c = d \<and> r = s"
proof -
  consider (two) "two_char_escape c" | (ctrl) "\<not> two_char_escape c" "(of_char c :: nat) < 0x20"
    | (plain) "\<not> two_char_escape c" "\<not> (of_char c :: nat) < 0x20" by blast
  then show ?thesis
  proof cases
    case two
    consider (two') "two_char_escape d" | (ctrl') "\<not> two_char_escape d" "(of_char d :: nat) < 0x20"
      | (plain') "\<not> two_char_escape d" "\<not> (of_char d :: nat) < 0x20" by blast
    then show ?thesis
    proof cases
      case two'
      then show ?thesis using assms two by (auto simp: escape_two dest: escape_tag_inj)
    next
      case ctrl'
      then show ?thesis using assms two escape_tag_not_u [OF two]
        by (auto simp: escape_two escape_ctrl)
    next
      case plain'
      then show ?thesis using assms two plain_not_special [of d]
        by (auto simp: escape_two escape_plain)
    qed
  next
    case ctrl
    consider (two') "two_char_escape d" | (ctrl') "\<not> two_char_escape d" "(of_char d :: nat) < 0x20"
      | (plain') "\<not> two_char_escape d" "\<not> (of_char d :: nat) < 0x20" by blast
    then show ?thesis
    proof cases
      case two'
      then show ?thesis using assms ctrl escape_tag_not_u [OF two']
        by (auto simp: escape_two escape_ctrl)
    next
      case ctrl'
      then show ?thesis using assms ctrl ctrl_inj [of c d]
        by (auto simp: escape_ctrl)
    next
      case plain'
      then show ?thesis using assms ctrl plain_not_special [of d]
        by (auto simp: escape_ctrl escape_plain)
    qed
  next
    case plain
    consider (two') "two_char_escape d" | (ctrl') "\<not> two_char_escape d" "(of_char d :: nat) < 0x20"
      | (plain') "\<not> two_char_escape d" "\<not> (of_char d :: nat) < 0x20" by blast
    then show ?thesis
    proof cases
      case two'
      then show ?thesis using assms plain plain_not_special [of c]
        by (auto simp: escape_two escape_plain)
    next
      case ctrl'
      then show ?thesis using assms plain plain_not_special [of c]
        by (auto simp: escape_ctrl escape_plain)
    next
      case plain'
      then show ?thesis using assms plain by (auto simp: escape_plain)
    qed
  qed
qed

lemma escaped_self_delimiting:
  "concat (map escape_char a) @ dquote # r = concat (map escape_char b) @ dquote # s
   \<Longrightarrow> a = b \<and> r = s"
proof (induction a arbitrary: b)
  case Nil
  show ?case
  proof (cases b)
    case Nil
    then show ?thesis using Nil.prems by simp
  next
    case (Cons d ds)
    then show ?thesis using Nil.prems escape_char_hd [of d]
      by (cases "escape_char d") auto
  qed
next
  case (Cons c cs)
  show ?case
  proof (cases b)
    case Nil
    then show ?thesis using Cons.prems escape_char_hd [of c]
      by (cases "escape_char c") auto
  next
    case (Cons d ds)
    then have "escape_char c @ (concat (map escape_char cs) @ dquote # r)
             = escape_char d @ (concat (map escape_char ds) @ dquote # s)"
      using Cons.prems by simp
    then have "c = d" "concat (map escape_char cs) @ dquote # r = concat (map escape_char ds) @ dquote # s"
      using escape_char_self_delimiting by blast+
    then show ?thesis using Cons.IH Cons by blast
  qed
qed

lemma encode_basestring_self_delimiting:
  "encode_basestring a @ r = encode_basestring b @ s \<Longrightarrow> a = b \<and> r = s"
  using escaped_self_delimiting [of a r b s] by (simp add: encode_basestring_def)

lemma join_Cons: "join sep (x # xs) = x @ (if xs = [] then [] else sep @ join sep xs)"
  by (cases xs) auto

lemma array_items_self_delimiting:
  assumes sd: "self_delimiting_on A f"
    and nc: "\<And>x. x \<in> A \<Longrightarrow> f x \<noteq> [] \<and> hd (f x) \<noteq> CHR '']''"
  shows "set xs \<subseteq> A \<Longrightarrow> set ys \<subseteq> A \<Longrightarrow>
    join '','' (map f xs) @ CHR '']'' # r = join '','' (map f ys) @ CHR '']'' # s
    \<Longrightarrow> xs = ys \<and> r = s"
proof (induction xs arbitrary: ys)
  case Nil
  show ?case
  proof (cases ys)
    case Nil
    then show ?thesis using Nil.prems by simp
  next
    case (Cons y ys')
    then have "y \<in> A" using Nil.prems by simp
    then have "f y \<noteq> []" "hd (f y) \<noteq> CHR '']''" using nc by blast+
    then show ?thesis using Nil.prems Cons
      by (cases "f y") (auto simp: join_Cons)
  qed
next
  case (Cons x xs')
  have xA: "x \<in> A" using Cons.prems by simp
  show ?case
  proof (cases ys)
    case Nil
    have "f x \<noteq> []" "hd (f x) \<noteq> CHR '']''" using nc xA by blast+
    then show ?thesis using Cons.prems Nil
      by (cases "f x") (auto simp: join_Cons)
  next
    case (Cons y ys')
    then have yA: "y \<in> A" using Cons.prems by simp
    let ?tx = "(if xs' = [] then [] else '','' @ join '','' (map f xs')) @ CHR '']'' # r"
    let ?ty = "(if ys' = [] then [] else '','' @ join '','' (map f ys')) @ CHR '']'' # s"
    have "f x @ ?tx = f y @ ?ty"
      using Cons.prems(3) Cons by (simp add: join_Cons)
    then have xy: "x = y" and t: "?tx = ?ty"
      using sd xA yA unfolding self_delimiting_on_def by blast+
    have "xs' = ys' \<and> r = s"
    proof (cases "xs' = []")
      case True
      then show ?thesis using t by (cases "ys' = []") auto
    next
      case False
      then have "ys' \<noteq> []" using t by (cases "ys' = []") auto
      then have "join '','' (map f xs') @ CHR '']'' # r = join '','' (map f ys') @ CHR '']'' # s"
        using t False by simp
      then show ?thesis using Cons.IH [of ys'] Cons.prems Cons by simp
    qed
    then show ?thesis using xy Cons by simp
  qed
qed

lemma json_array_self_delimiting:
  assumes "self_delimiting_on A f"
    and "\<And>x. x \<in> A \<Longrightarrow> f x \<noteq> [] \<and> hd (f x) \<noteq> CHR '']''"
    and "set xs \<subseteq> A" "set ys \<subseteq> A"
  shows "json_array (map f xs) @ r = json_array (map f ys) @ s \<longleftrightarrow> xs = ys \<and> r = s"
  using array_items_self_delimiting [OF assms(1,2,3,4), of r s]
  by (auto simp: json_array_def)

lemma encode_basestring_eq_iff [simp]:
  "encode_basestring a @ r = encode_basestring b @ s \<longleftrightarrow> a = b \<and> r = s"
  using encode_basestring_self_delimiting by blast

lemma encode_basestring_hd: "encode_basestring a \<noteq> [] \<and> hd (encode_basestring a) = dquote"
  by (simp add: encode_basestring_def)

lemma string_array_eq_iff [simp]:
  "json_array (map encode_basestring xs) @ r = json_array (map encode_basestring ys) @ s
   \<longleftrightarrow> xs = ys \<and> r = s"
  by (rule json_array_self_delimiting [where A = UNIV])
     (auto simp: self_delimiting_on_def encode_basestring_hd)

lemma str_int_no_comma: "CHR '','' \<notin> set (str_int i)"
  using str_int_chars [of "CHR '',''" i] by (auto simp: is_digit_iff)

lemma split_at_first:
  "c \<notin> set xs \<Longrightarrow> c \<notin> set ys \<Longrightarrow> xs @ c # r = ys @ c # s \<Longrightarrow> xs = ys \<and> r = s"
proof (induction xs arbitrary: ys)
  case Nil
  then show ?case by (cases ys) auto
next
  case (Cons x xs)
  then show ?case by (cases ys) auto
qed

lemma str_int_comma_eq_iff [simp]:
  "str_int i @ CHR '','' # r = str_int j @ CHR '','' # s \<longleftrightarrow> i = j \<and> r = s"
  using split_at_first [OF str_int_no_comma str_int_no_comma, of i r j s] str_int_inj
  by auto

section \<open>The content hash: proofs\<close>

lemma dumps_hint_json:
  "dumps_compact (hint_json idx t e) =
     ''{'' @ (if e \<noteq> [] then encode_basestring ''explanationText'' @ '':'' @ encode_basestring e @ '','' else [])
     @ encode_basestring ''id'' @ '':'' @ encode_basestring (''h'' @ str_int (int idx + 1)) @ '',''
     @ encode_basestring ''index'' @ '':'' @ str_int (int idx) @ '',''
     @ encode_basestring ''text'' @ '':'' @ encode_basestring t @ ''}''"
  by (simp add: hint_json_def)

lemma dumps_hint_json_hd:
  "dumps_compact (hint_json idx t e) \<noteq> [] \<and> hd (dumps_compact (hint_json idx t e)) \<noteq> CHR '']''"
  by (simp add: dumps_hint_json)

lemma hint_json_self_delimiting:
  assumes "dumps_compact (hint_json i t e) @ r = dumps_compact (hint_json j u f) @ s"
  shows "hint_json i t e = hint_json j u f \<and> r = s"
proof (cases "e = []"; cases "f = []")
  assume "e = []" "f = []"
  then show ?thesis using assms by (simp add: dumps_hint_json) 
next
  assume "e = []" "f \<noteq> []"
  then show ?thesis using assms by (simp add: dumps_hint_json)
next
  assume "e \<noteq> []" "f = []"
  then show ?thesis using assms by (simp add: dumps_hint_json)
next
  assume "e \<noteq> []" "f \<noteq> []"
  then show ?thesis using assms by (simp add: dumps_hint_json)
qed

lemma built_hints_self_delimiting: "self_delimiting_on built_hints dumps_compact"
  unfolding self_delimiting_on_def built_hints_def
  using hint_json_self_delimiting by blast

lemma build_hints_built: "set (build_hints r) \<subseteq> built_hints"
  by (auto simp: build_hints_def built_hints_def hint_json_def Let_def split: if_splits)

lemma hints_sorted: "sort_key hint_index (build_hints r) = build_hints r"
  by (rule sort_key_id_if_sorted)
     (simp add: build_hints_def hint_columns_def enumerate_eq_zip upt_rec numeral_nat
        hint_index_def Let_def)

lemma dumps_string_array:
  "dumps_compact (JArr (map JStr xs)) = json_array (map encode_basestring xs)"
  by (simp add: json_array_def comp_def)

lemma dumps_array: "dumps_compact (JArr hs) = json_array (map dumps_compact hs)"
  by (simp add: json_array_def)

lemma hint_array_eq_iff [simp]:
  "json_array (map dumps_compact (build_hints r1)) @ r = json_array (map dumps_compact (build_hints r2)) @ s
   \<longleftrightarrow> build_hints r1 = build_hints r2 \<and> r = s"
proof (rule json_array_self_delimiting [OF built_hints_self_delimiting])
  fix x assume "x \<in> built_hints"
  then show "dumps_compact x \<noteq> [] \<and> hd (dumps_compact x) \<noteq> CHR '']''"
    unfolding built_hints_def using dumps_hint_json_hd by blast
qed (rule build_hints_built)+

lemma canonical_text_built:
  "canonical_text (build_puzzle_object r v) =
     ''{'' @ encode_basestring ''answerAliases'' @ '':''
       @ json_array (map encode_basestring (split_comma_list (row_get r ANSWER_ALIASES_COL))) @ '',''
     @ encode_basestring ''answerCanonical'' @ '':''
       @ encode_basestring (strip_wrapping_quotes (row_get r ANSWER_CANONICAL_COL)) @ '',''
     @ encode_basestring ''category'' @ '':''
       @ encode_basestring (strip_wrapping_quotes (row_get r CATEGORY_COL)) @ '',''
     @ encode_basestring ''dateKey'' @ '':''
       @ encode_basestring (strip_wrapping_quotes (row_get r DATEKEY_COL)) @ '',''
     @ encode_basestring ''hints'' @ '':''
       @ json_array (map dumps_compact (build_hints r)) @ '',''
     @ encode_basestring ''id'' @ '':''
       @ encode_basestring (strip_wrapping_quotes (row_get r DATEKEY_COL)) @ '',''
     @ encode_basestring ''solutionExplanation'' @ '':''
       @ encode_basestring (strip_wrapping_quotes (row_get r SOLUTION_EXPLANATION_COL)) @ '',''
     @ encode_basestring ''tags'' @ '':''
       @ json_array (map encode_basestring (split_semicolon_list (row_get r TAGS_COL))) @ ''}''"
  unfolding canonical_text_def build_puzzle_object_def Let_def
  by (simp add: hints_sorted dumps_array comp_def del: dumps_compact.simps(5))

lemma string_array_eq [simp]:
  "json_array (map encode_basestring xs) = json_array (map encode_basestring ys) \<longleftrightarrow> xs = ys"
  using string_array_eq_iff [of xs "[]" ys "[]"] by simp

lemma map_JStr_eq [simp]: "map JStr xs = map JStr ys \<longleftrightarrow> xs = ys"
  by (rule inj_map_eq_map) (simp add: inj_on_def)

lemma canonical_text_content:
  "canonical_text (build_puzzle_object r1 v1) = canonical_text (build_puzzle_object r2 v2)
   \<longleftrightarrow> AList.delete ''version'' (build_puzzle_object r1 v1)
       = AList.delete ''version'' (build_puzzle_object r2 v2)"
  unfolding canonical_text_built
  by (auto simp: build_puzzle_object_def Let_def)

lemma canonical_text_version: "canonical_text (build_puzzle_object r v1) = canonical_text (build_puzzle_object r v2)"
  by (simp add: canonical_text_content) (simp add: build_puzzle_object_def Let_def)

section \<open>Claim C1: the content hash and the version\<close>

lemma hex_digest_sample_sha: "hex_digest sample_sha"
  by (auto simp: hex_digest_def sample_sha_def)

lemma category_row_content:
  assumes "AList.delete ''version'' (build_puzzle_object (category_row n) v)
   = AList.delete ''version'' (build_puzzle_object (category_row m) w)"
  shows "n = m"
proof -
  have a: "\<not> isspace (CHR ''a'')" by (simp add: isspace_def)
  have norm: "strip_wrapping_quotes (replicate k (CHR ''a'')) = replicate k (CHR ''a'')" for k
    by (rule plain_chars_normalised) (use a in auto)
  have "strip_wrapping_quotes (row_get (category_row n) CATEGORY_COL)
      = strip_wrapping_quotes (row_get (category_row m) CATEGORY_COL)"
    using assms by (simp add: build_puzzle_object_def Let_def)
  then have "replicate n (CHR ''a'') = replicate m (CHR ''a'')"
    by (simp add: category_row_def row_get_def norm)
  then show ?thesis by (metis length_replicate)
qed

lemma finite_digests: "finite {s :: string. length s = 64 \<and> set s \<subseteq> set ''0123456789abcdef''}"
  using finite_lists_length_eq [of "set ''0123456789abcdef''" 64] by (simp add: conj_commute)

text \<open>
  Claim C1, as worded, fails in its second half: a digest of 64 hexadecimal
  digits takes finitely many values, and the records built from rows have
  infinitely many contents, so no such digest gives different hashes to all
  records that differ in a field other than \<open>version\<close>.
\<close>

theorem content_hash_counterexample:
  "\<not> (\<exists>sha. hex_digest sha \<and>
        (\<forall>r1 r2 v1 v2.
           AList.delete ''version'' (build_puzzle_object r1 v1)
             \<noteq> AList.delete ''version'' (build_puzzle_object r2 v2) \<longrightarrow>
           compute_content_hash sha (build_puzzle_object r1 v1)
             \<noteq> compute_content_hash sha (build_puzzle_object r2 v2)))"
proof
  assume "\<exists>sha. hex_digest sha \<and>
        (\<forall>r1 r2 v1 v2.
           AList.delete ''version'' (build_puzzle_object r1 v1)
             \<noteq> AList.delete ''version'' (build_puzzle_object r2 v2) \<longrightarrow>
           compute_content_hash sha (build_puzzle_object r1 v1)
             \<noteq> compute_content_hash sha (build_puzzle_object r2 v2))"
  then obtain sha where hex: "hex_digest sha"
    and differ: "\<And>r1 r2 v1 v2.
           AList.delete ''version'' (build_puzzle_object r1 v1)
             \<noteq> AList.delete ''version'' (build_puzzle_object r2 v2) \<Longrightarrow>
           compute_content_hash sha (build_puzzle_object r1 v1)
             \<noteq> compute_content_hash sha (build_puzzle_object r2 v2)"
    by blast
  define f where "f n = compute_content_hash sha (build_puzzle_object (category_row n) 1)" for n
  have "inj f"
  proof (rule injI)
    fix n m assume "f n = f m"
    then show "n = m"
      using differ [of "category_row n" 1 "category_row m" 1] category_row_content [of n 1 m 1]
      unfolding f_def by blast
  qed
  moreover have "range f \<subseteq> {s. length s = 64 \<and> set s \<subseteq> set ''0123456789abcdef''}"
    using hex unfolding hex_digest_def f_def compute_content_hash_def by blast
  then have "finite (range f)" using finite_digests finite_subset by blast
  ultimately have "finite (UNIV :: nat set)" using finite_imageD by blast
  then show False by simp
qed

text \<open>
  Claim C1, amended. For records built from rows, the content hash does not
  depend on the version: two records that differ only in \<open>version\<close> have
  the same hash. A difference in any other field (\<open>id\<close>, \<open>dateKey\<close>,
  \<open>category\<close>, \<open>tags\<close>, \<open>answerAliases\<close>, \<open>answerCanonical\<close>, \<open>hints\<close>,
  \<open>solutionExplanation\<close>) changes the canonical text that is hashed, so the
  hashes of two records are equal exactly when the records agree in all
  fields but \<open>version\<close> or the digest collides on their two different
  canonical texts.
\<close>

theorem content_hash_amended:
  "compute_content_hash sha (build_puzzle_object r v1)
     = compute_content_hash sha (build_puzzle_object r v2)
   \<and> (AList.delete ''version'' (build_puzzle_object r1 w1)
         \<noteq> AList.delete ''version'' (build_puzzle_object r2 w2) \<longrightarrow>
       canonical_text (build_puzzle_object r1 w1) \<noteq> canonical_text (build_puzzle_object r2 w2))
   \<and> (compute_content_hash sha (build_puzzle_object r1 w1)
         = compute_content_hash sha (build_puzzle_object r2 w2)
       \<longleftrightarrow>
         AList.delete ''version'' (build_puzzle_object r1 w1)
           = AList.delete ''version'' (build_puzzle_object r2 w2)
         \<or> (canonical_text (build_puzzle_object r1 w1) \<noteq> canonical_text (build_puzzle_object r2 w2)
            \<and> sha (canonical_text (build_puzzle_object r1 w1))
              = sha (canonical_text (build_puzzle_object r2 w2))))"
  unfolding compute_content_hash_def
  using canonical_text_version [of r v1 v2] canonical_text_content [of r1 w1 r2 w2]
  by auto

theorem content_hash_amended_witness:
  "compute_content_hash sample_sha (build_puzzle_object sample_row 1)
     = compute_content_hash sample_sha (build_puzzle_object sample_row 2)
   \<and> canonical_text (build_puzzle_object sample_row 1)
       \<noteq> canonical_text (build_puzzle_object sample_row_edited 1)"
proof -
  have "AList.delete ''version'' (build_puzzle_object sample_row 1)
         \<noteq> AList.delete ''version'' (build_puzzle_object sample_row_edited 1)"
    by code_simp
  then show ?thesis
    using content_hash_amended [of sample_sha sample_row 1 2 sample_row 1 sample_row_edited 1]
    by blast
qed

section \<open>Claim C2: version reconciliation of one row\<close>


lemma rest_row_set [simp]: "rest (row_set r k v) = rest r"
  by (simp add: row_set_def)





section \<open>Claim C6: rows that are skipped\<close>

lemma loop_body_error: "loop_body sha d st r = Inl e \<Longrightarrow> e = AttributeError"
  by (auto simp: loop_body_def row_has_any_content_def Let_def
      split: if_splits option.splits sum.splits bool.splits)

lemma run_rows_error: "run_rows sha d st rs = (st', Some e) \<Longrightarrow> e = AttributeError"
  by (induction rs arbitrary: st) (auto split: sum.splits dest: loop_body_error)

lemma skipped_blank_row:
  assumes "row_has_any_content r = Inr False"
  shows "loop_body sha d st r =
     Inr (st\<lparr>skipped_blank_rows := skipped_blank_rows st + 1, table_rows := table_rows st @ [r]\<rparr>)"
  using assms by (simp add: loop_body_def)

lemma skipped_missing_date_row:
  assumes "row_has_any_content r = Inr True" "strip_wrapping_quotes (row_get r DATEKEY_COL) = []"
  shows "loop_body sha d st r =
     Inr (st\<lparr>skipped_missing_date := skipped_missing_date st + 1,
             table_rows := table_rows st @ [r]\<rparr>)"
  using assms by (simp add: loop_body_def)

text \<open>
  Claim C6 says that every row whose fields are all blank is skipped and
  counted. \<open>_row_has_any_content\<close> is written to do so, but it calls \<open>strip\<close>
  on every value of the row, and for a line with more fields than the header
  \<open>csv.DictReader\<close> stores the surplus fields as a list under the key \<open>None\<close>.
  A table whose header is the seven required columns and whose only data
  line has eight empty fields is such an input: the run raises
  \<open>AttributeError\<close> on that row instead of skipping it.
\<close>

theorem blank_row_with_surplus_field_raises:
  "generate sample_sha sample_now False (sample_files\<lparr>csv := surplus_csv\<rparr>)
     = (sample_files\<lparr>csv := surplus_csv\<rparr>, Inl AttributeError)"
  apply (simp add: generate_def sample_files_def surplus_csv_def read_csv_table_def
      require_columns_def REQUIRED_COLUMNS_def add_content_hash_column_def col_defs
      load_manifest_def ensure_manifest_shape_def is_dict_def dict_of_def Let_def
      initial_loop_state_def loop_body_def row_has_any_content_def dict_row_def
      strip_def lstrip_def rstrip_def)
  done

section \<open>The steps of a run: proofs\<close>



lemma read_csv_table_ok:
  "records f \<noteq> [] \<Longrightarrow> hd (records f) \<noteq> [] \<Longrightarrow>
   read_csv_table f = Inr \<lparr>header = hd (records f),
        rows = map (dict_row (hd (records f))) (filter (\<lambda>r. r \<noteq> []) (tl (records f))),
        delimiter = file_delimiter f\<rparr>"
  by (simp add: read_csv_table_def Let_def)

lemma require_columns_cases:
  "require_columns t req =
     (if set req \<subseteq> set (header t) then Inr ()
      else Inl (ValueError_missing_columns (filter (\<lambda>c. c \<notin> set (header t)) req)))"
  by (auto simp: require_columns_def Let_def filter_empty_conv)

lemma ensure_manifest_shape_object: "ensure_manifest_shape (JObj m) = Inr (shaped m)"
  by (simp add: ensure_manifest_shape_def shaped_def Let_def)

lemma ensure_manifest_shape_other:
  "(\<forall>m. j \<noteq> JObj m) \<Longrightarrow> ensure_manifest_shape j = Inl TypeError"
  by (cases j) (simp_all add: ensure_manifest_shape_def)




lemma generate_manifest_missing:
  "table_accepted (csv fs) \<Longrightarrow> manifest fs = Missing \<Longrightarrow>
   generate sha now d fs = (fs, Inl FileNotFoundError)"
  by (simp add: generate_def table_accepted_def read_csv_table_ok require_columns_cases
      load_manifest_def)

lemma generate_manifest_unparseable:
  "table_accepted (csv fs) \<Longrightarrow> manifest fs = Unparseable \<Longrightarrow>
   generate sha now d fs = (fs, Inl JSONDecodeError)"
  by (simp add: generate_def table_accepted_def read_csv_table_ok require_columns_cases
      load_manifest_def)

lemma generate_manifest_not_object:
  "table_accepted (csv fs) \<Longrightarrow> manifest fs = Doc j \<Longrightarrow> \<forall>m. j \<noteq> JObj m \<Longrightarrow>
   generate sha now d fs = (fs, Inl TypeError)"
  by (simp add: generate_def table_accepted_def read_csv_table_ok require_columns_cases
      load_manifest_def ensure_manifest_shape_other)

lemma generate_accepted:
  "table_accepted (csv fs) \<Longrightarrow> manifest fs = Doc (JObj m) \<Longrightarrow>
   generate sha now d fs =
     (case run_rows sha d (loop_start fs m) (rows (loaded_table (csv fs))) of
        (st, Some e) \<Rightarrow> (fs\<lparr>puzzles := puzzles_dir st\<rparr>, Inl e)
      | (st, None) \<Rightarrow>
          (case finish now d fs (loaded_table (csv fs)) (shaped m) st of
             (fs', rep) \<Rightarrow> (fs', Inr rep)))"
  unfolding loaded_table_def loop_start_def
  by (simp add: generate_def table_accepted_def read_csv_table_ok require_columns_cases
      load_manifest_def ensure_manifest_shape_object Let_def)




lemma manifest_file_cases:
  obtains "mf = Missing" | "mf = Unparseable" | j where "mf = Doc j" "\<forall>m. j \<noteq> JObj m"
  | m where "mf = Doc (JObj m)"
  by (cases mf) auto


lemma shaped_puzzles:
  "map_of (shaped m) ''puzzles''
     = (if is_dict (map_of m ''puzzles'') then map_of m ''puzzles'' else Some (JObj []))"
  by (simp add: shaped_def Let_def update_conv')

lemma shaped_meta:
  "map_of (shaped m) ''meta''
     = (if is_dict (map_of m ''meta'') then map_of m ''meta'' else Some (JObj []))"
  by (simp add: shaped_def Let_def update_conv')

lemma shaped_other:
  "k \<noteq> ''puzzles'' \<Longrightarrow> k \<noteq> ''meta'' \<Longrightarrow> map_of (shaped m) k = map_of m k"
  by (simp add: shaped_def Let_def update_conv')

lemma is_dict_shaped: "is_dict (map_of (shaped m) ''puzzles'')" "is_dict (map_of (shaped m) ''meta'')"
  by (auto simp: shaped_puzzles shaped_meta is_dict_def)

lemma finish_manifest_shape:
  assumes "finish now d fs t (shaped m) st = (fs', rep)"
  shows "is_dict (map_of (manifest_in_memory rep) ''puzzles'')
       \<and> is_dict (map_of (manifest_in_memory rep) ''meta'')"
  using assms is_dict_shaped(2) [of m]
  by (auto simp: finish_def Let_def update_conv' is_dict_def)

lemma generate_accepted_manifest:
  assumes "table_accepted (csv fs)" "manifest fs = Doc (JObj m)"
  shows "snd (generate sha now d fs) = Inl AttributeError
       \<or> (\<exists>rep. snd (generate sha now d fs) = Inr rep
               \<and> is_dict (map_of (manifest_in_memory rep) ''puzzles'')
               \<and> is_dict (map_of (manifest_in_memory rep) ''meta''))"
proof (cases "run_rows sha d (loop_start fs m) (rows (loaded_table (csv fs)))")
  case (Pair st err)
  show ?thesis
  proof (cases err)
    case None
    obtain fs' rep where f: "finish now d fs (loaded_table (csv fs)) (shaped m) st = (fs', rep)"
      by (cases "finish now d fs (loaded_table (csv fs)) (shaped m) st")
    then show ?thesis
      using Pair None finish_manifest_shape [OF f] by (simp add: generate_accepted [OF assms])
  next
    case (Some e)
    then have "e = AttributeError" using Pair run_rows_error by blast
    then show ?thesis using Pair Some by (simp add: generate_accepted [OF assms])
  qed
qed

lemma loop_body_processed:
  assumes "is_processed r"
  shows "loop_body sha d st r =
    Inr (st\<lparr>results := results st @ [row_result sha (puzzles_dir st (artifact_name sha r) \<noteq> None) r],
            puzzles_manifest := AList.update (day_key r) (new_entry sha r) (puzzles_manifest st),
            any_csv_updates := (any_csv_updates st \<or> stored_hash r = [] \<or> needs_bump sha r),
            any_manifest_updates :=
              (any_manifest_updates st
               \<or> entry_differs (map_of (puzzles_manifest st) (day_key r)) (new_entry sha r)),
            puzzles_dir := (if d then puzzles_dir st
                            else (puzzles_dir st)(artifact_name sha r \<mapsto> artifact_text sha r)),
            table_rows := table_rows st @ [updated_row sha r]\<rparr>)"
  using assms
  unfolding is_processed_def day_key_def
  by (auto simp: loop_body_def Let_def row_result_def day_key_def final_version_def
      needs_bump_def stored_hash_def computed_hash_def parsed_version_def artifact_name_def
      artifact_text_def new_entry_def updated_row_def)

lemma loop_body_skipped:
  assumes "is_skipped r"
  shows "loop_body sha d st r =
    Inr (st\<lparr>skipped_blank_rows :=
              skipped_blank_rows st + (if row_has_any_content r = Inr False then 1 else 0),
            skipped_missing_date :=
              skipped_missing_date st + (if row_has_any_content r = Inr False then 0 else 1),
            table_rows := table_rows st @ [r]\<rparr>)"
  using assms unfolding is_skipped_def day_key_def
  by (auto simp: loop_body_def Let_def)

lemma row_kinds:
  obtains (processed) "is_processed r" | (skipped) "is_skipped r"
    | (raises) "row_has_any_content r = Inl AttributeError"
proof (cases "row_has_any_content r")
  case (Inl e)
  then have "e = AttributeError"
    by (auto simp: row_has_any_content_def split: if_splits option.splits)
  then show ?thesis using Inl raises by simp
next
  case (Inr b)
  then show ?thesis
    using processed skipped by (cases b; cases "day_key r = []") (auto simp: is_processed_def is_skipped_def)
qed


lemma advance_processed:
  "is_processed r \<Longrightarrow> advance sha d st r =
     st\<lparr>results := results st @ [row_result sha (puzzles_dir st (artifact_name sha r) \<noteq> None) r],
            puzzles_manifest := AList.update (day_key r) (new_entry sha r) (puzzles_manifest st),
            any_csv_updates := (any_csv_updates st \<or> stored_hash r = [] \<or> needs_bump sha r),
            any_manifest_updates :=
              (any_manifest_updates st
               \<or> entry_differs (map_of (puzzles_manifest st) (day_key r)) (new_entry sha r)),
            puzzles_dir := (if d then puzzles_dir st
                            else (puzzles_dir st)(artifact_name sha r \<mapsto> artifact_text sha r)),
            table_rows := table_rows st @ [updated_row sha r]\<rparr>"
  by (simp add: advance_def loop_body_processed)

lemma advance_skipped:
  "is_skipped r \<Longrightarrow> advance sha d st r =
     st\<lparr>skipped_blank_rows :=
              skipped_blank_rows st + (if row_has_any_content r = Inr False then 1 else 0),
            skipped_missing_date :=
              skipped_missing_date st + (if row_has_any_content r = Inr False then 0 else 1),
            table_rows := table_rows st @ [r]\<rparr>"
  by (simp add: advance_def loop_body_skipped)

lemma not_raises_kinds: "\<not> raises r \<Longrightarrow> is_processed r \<or> is_skipped r"
  by (cases r rule: row_kinds) (auto simp: raises_def)

lemma skipped_not_processed: "is_skipped r \<Longrightarrow> \<not> is_processed r"
  by (auto simp: is_skipped_def is_processed_def)



lemma upserted_Nil [simp]: "upserted sha pm [] = pm"
  by (simp add: upserted_def processed_rows_def)

lemma upserted_Cons:
  "upserted sha pm (r # rs) =
     upserted sha (if is_processed r then AList.update (day_key r) (new_entry sha r) pm else pm) rs"
  by (simp add: upserted_def processed_rows_def)

lemma fold_puzzles_manifest:
  "\<forall>r \<in> set rs. \<not> raises r \<Longrightarrow>
   puzzles_manifest (foldl (advance sha d) st rs) = upserted sha (puzzles_manifest st) rs"
proof (induction rs arbitrary: st)
  case Nil
  then show ?case by simp
next
  case (Cons r rs)
  then have k: "is_processed r \<or> is_skipped r" using not_raises_kinds by simp
  then show ?case
    using Cons by (auto simp: upserted_Cons advance_processed advance_skipped skipped_not_processed)
qed



lemma set_rows_reached: "set (rows_reached rs) \<subseteq> set rs" "\<forall>r \<in> set (rows_reached rs). \<not> raises r"
  by (auto simp: rows_reached_def dest: set_takeWhileD)

lemma dict_of_shaped_puzzles: "dict_of (map_of (shaped m) ''puzzles'') = dict_of (map_of m ''puzzles'')"
  by (auto simp: shaped_puzzles is_dict_def dict_of_def split: option.splits json.splits)

lemma loop_start_fields:
  "puzzles_manifest (loop_start fs m) = dict_of (map_of m ''puzzles'')"
  "puzzles_dir (loop_start fs m) = puzzles fs"
  "any_manifest_updates (loop_start fs m) = False"
  "any_csv_updates (loop_start fs m) = False"
  "results (loop_start fs m) = []"
  "table_rows (loop_start fs m) = []"
  by (simp_all add: loop_start_def initial_loop_state_def dict_of_shaped_puzzles)


lemma finish_csv:
  "csv (fst (finish now d fs t m st))
     = (if \<not> d \<and> any_csv_updates st then write_csv_table (t\<lparr>rows := table_rows st\<rparr>)
        else csv fs)"
  by (simp add: finish_def Let_def)

lemma finish_puzzles: "puzzles (fst (finish now d fs t m st)) = puzzles_dir st"
  by (simp add: finish_def Let_def)








lemma entry_changed_Nil [simp]: "\<not> entry_changed sha pm []"
  by (simp add: entry_changed_def)






lemma end_state_puzzles_manifest:
  assumes "\<forall>r \<in> set (rows (loaded_table (csv fs))). \<not> raises r"
  shows "puzzles_manifest (end_state sha d fs m)
     = upserted sha (dict_of (map_of m ''puzzles'')) (rows (loaded_table (csv fs)))"
  using assms by (simp add: end_state_def fold_puzzles_manifest loop_start_fields)




lemma written_Nil [simp]: "written sha dir [] = dir"
  by (simp add: written_def processed_rows_def)

lemma written_Cons:
  "written sha dir (r # rs) =
     written sha (if is_processed r then dir(artifact_name sha r \<mapsto> artifact_text sha r) else dir) rs"
  by (simp add: written_def processed_rows_def)

lemma fold_fields:
  "\<forall>r \<in> set rs. \<not> raises r \<Longrightarrow>
   results (foldl (advance sha d) st rs) = results st @ results_from sha d (puzzles_dir st) rs
   \<and> puzzles_dir (foldl (advance sha d) st rs)
           = (if d then puzzles_dir st else written sha (puzzles_dir st) rs)
   \<and> any_csv_updates (foldl (advance sha d) st rs) = (any_csv_updates st \<or> csv_changed sha rs)
   \<and> table_rows (foldl (advance sha d) st rs) = table_rows st @ rows_after sha rs
   \<and> skipped_blank_rows (foldl (advance sha d) st rs)
           = skipped_blank_rows st + length (filter (\<lambda>r. row_has_any_content r = Inr False) rs)
   \<and> skipped_missing_date (foldl (advance sha d) st rs)
           = skipped_missing_date st
             + length (filter (\<lambda>r. is_skipped r \<and> row_has_any_content r \<noteq> Inr False) rs)"
proof (induction rs arbitrary: st)
  case Nil
  show ?case by (simp add: csv_changed_def processed_rows_def rows_after_def)
next
  case (Cons r rs)
  have ok: "\<forall>r \<in> set rs. \<not> raises r" and k: "is_processed r \<or> is_skipped r"
    using Cons.prems not_raises_kinds by simp_all
  note ih = Cons.IH [OF ok, of "advance sha d st r"]
  from k show ?case
  proof
    assume p: "is_processed r"
    then have pb: "row_has_any_content r \<noteq> Inr False" "\<not> is_skipped r"
      by (auto simp: is_processed_def is_skipped_def)
    show ?thesis
      using ih p pb
      by (simp add: advance_processed written_Cons csv_changed_def processed_rows_def
          rows_after_def disj_assoc)
  next
    assume s: "is_skipped r"
    then have np: "\<not> is_processed r" by (rule skipped_not_processed)
    show ?thesis
      using ih s np
      by (simp add: advance_skipped written_Cons csv_changed_def processed_rows_def
          rows_after_def)
  qed
qed

lemma str_int_no_v: "CHR ''v'' \<notin> set (str_int i)"
  using str_int_chars [of "CHR ''v''" i] by (auto simp: is_digit_iff)

lemma puzzle_filename_inj:
  assumes "puzzle_filename dk v = puzzle_filename dk' v'"
  shows "dk = dk' \<and> v = v'"
proof -
  have "dk @ ''.v'' @ str_int v = dk' @ ''.v'' @ str_int v'"
    using assms by (simp add: puzzle_filename_def)
  then have "rev (dk @ ''.v'' @ str_int v) = rev (dk' @ ''.v'' @ str_int v')" by simp
  then have "rev (str_int v) @ CHR ''v'' # (CHR ''.'' # rev dk)
           = rev (str_int v') @ CHR ''v'' # (CHR ''.'' # rev dk')"
    by simp
  moreover have "CHR ''v'' \<notin> set (rev (str_int v))" "CHR ''v'' \<notin> set (rev (str_int v'))"
    using str_int_no_v by simp_all
  ultimately have "rev (str_int v) = rev (str_int v') \<and> CHR ''.'' # rev dk = CHR ''.'' # rev dk'"
    by (rule split_at_first [rotated 2])
  then show ?thesis using str_int_inj by auto
qed

lemma artifact_name_day_key: "artifact_name sha r = artifact_name sha r' \<Longrightarrow> day_key r = day_key r'"
  using puzzle_filename_inj by (auto simp: artifact_name_def)

lemma processed_rows_Nil [simp]: "processed_rows [] = []"
  by (simp add: processed_rows_def)

lemma processed_rows_Cons:
  "processed_rows (r # rs) = (if is_processed r then r # processed_rows rs else processed_rows rs)"
  by (simp add: processed_rows_def)

lemma results_from_dry_real:
  assumes "distinct (map day_key (processed_rows rs))"
    and "\<forall>r \<in> set (processed_rows rs).
           (dir (artifact_name sha r) \<noteq> None) = (dir' (artifact_name sha r) \<noteq> None)"
  shows "results_from sha False dir rs = results_from sha True dir' rs"
  using assms
proof (induction rs arbitrary: dir)
  case Nil
  then show ?case by simp
next
  case (Cons r rs)
  show ?case
  proof (cases "is_processed r")
    case False
    then show ?thesis using Cons by (simp add: processed_rows_Cons)
  next
    case True
    have d: "distinct (map day_key (processed_rows rs))"
      and n: "day_key r \<notin> day_key ` set (processed_rows rs)"
      using Cons.prems(1) True by (simp_all add: processed_rows_Cons)
    have "\<forall>r' \<in> set (processed_rows rs).
           ((dir(artifact_name sha r \<mapsto> artifact_text sha r)) (artifact_name sha r') \<noteq> None)
           = (dir' (artifact_name sha r') \<noteq> None)"
    proof
      fix r' assume r': "r' \<in> set (processed_rows rs)"
      then have "day_key r' \<noteq> day_key r" using n by (metis imageI)
      then have "artifact_name sha r' \<noteq> artifact_name sha r"
        using artifact_name_day_key by blast
      then show "((dir(artifact_name sha r \<mapsto> artifact_text sha r)) (artifact_name sha r') \<noteq> None)
           = (dir' (artifact_name sha r') \<noteq> None)"
        using Cons.prems(2) r' True by (simp add: processed_rows_Cons)
    qed
    then have "results_from sha False (dir(artifact_name sha r \<mapsto> artifact_text sha r)) rs
             = results_from sha True dir' rs"
      using Cons.IH d by blast
    then show ?thesis using True Cons.prems(2) by (simp add: processed_rows_Cons)
  qed
qed

lemma results_from_classification:
  "map (\<lambda>x. (date_key x, version x, bumped x, reason x)) (results_from sha d dir rs)
   = map (\<lambda>r. (day_key r, final_version sha r, needs_bump sha r,
                 (if needs_bump sha r then ''content changed -> version bumped''
                  else if stored_hash r = [] then ''initialized contentHash''
                  else ''no content change''))) (processed_rows rs)"
  by (induction rs arbitrary: dir) (auto simp: processed_rows_Cons row_result_def)

section \<open>Claim C7: the conditions under which a run aborts\<close>




section \<open>Claim C10: a manifest that is not in shape\<close>

text \<open>
  Claim C10, as worded, fails: the manifest file \<open>[]\<close> parses as JSON and
  has no \<open>puzzles\<close> key, and the run aborts on it with \<open>TypeError\<close>, in
  \<open>ensure_manifest_shape\<close>, which takes a dict.
\<close>

theorem manifest_shape_counterexample:
  "load_manifest (Doc (JArr [])) = Inr (JArr [])
   \<and> snd (generate sample_sha sample_now False (sample_files\<lparr>manifest := Doc (JArr [])\<rparr>))
       = Inl TypeError"
proof -
  have "table_accepted (csv (sample_files\<lparr>manifest := Doc (JArr [])\<rparr>))"
    by (simp add: table_accepted_def sample_files_def sample_csv_def sample_header_def
        REQUIRED_COLUMNS_def)
  then show ?thesis
    by (simp add: generate_manifest_not_object load_manifest_def)
qed

text \<open>
  Claim C10, amended. A manifest file that parses to a JSON object does not
  abort the run, whatever its members: \<open>ensure_manifest_shape\<close> replaces
  \<open>puzzles\<close> and \<open>meta\<close>, each when it is absent or not an object, by an empty
  object and leaves every other member alone; the run goes on to its loop
  with the entries of \<open>puzzles\<close>, and in a run that completes both members of
  the manifest in memory are objects. With an accepted table, the manifest is
  fatal exactly when the file is missing, does not parse, or parses to a
  value that is not an object.
\<close>

theorem manifest_shape_amended:
  "ensure_manifest_shape (JObj m) = Inr (shaped m)
   \<and> map_of (shaped m) ''puzzles''
       = (if is_dict (map_of m ''puzzles'') then map_of m ''puzzles'' else Some (JObj []))
   \<and> map_of (shaped m) ''meta''
       = (if is_dict (map_of m ''meta'') then map_of m ''meta'' else Some (JObj []))
   \<and> (\<forall>k. k \<noteq> ''puzzles'' \<and> k \<noteq> ''meta'' \<longrightarrow> map_of (shaped m) k = map_of m k)
   \<and> (table_accepted (csv fs) \<and> manifest fs = Doc (JObj m) \<longrightarrow>
        generate sha now d fs =
          (case run_rows sha d
                  (initial_loop_state (dict_of (map_of (shaped m) ''puzzles'')) (puzzles fs))
                  (rows (loaded_table (csv fs))) of
             (st, Some e) \<Rightarrow> (fs\<lparr>puzzles := puzzles_dir st\<rparr>, Inl e)
           | (st, None) \<Rightarrow>
               (case finish now d fs (loaded_table (csv fs)) (shaped m) st of
                  (fs', rep) \<Rightarrow> (fs', Inr rep)))
        \<and> snd (generate sha now d fs) \<noteq> Inl FileNotFoundError
        \<and> snd (generate sha now d fs) \<noteq> Inl JSONDecodeError
        \<and> snd (generate sha now d fs) \<noteq> Inl TypeError
        \<and> (\<forall>rep. snd (generate sha now d fs) = Inr rep \<longrightarrow>
              is_dict (map_of (manifest_in_memory rep) ''puzzles'')
              \<and> is_dict (map_of (manifest_in_memory rep) ''meta'')))
   \<and> (table_accepted (csv fs) \<longrightarrow>
        (snd (generate sha now d fs) \<in> {Inl FileNotFoundError, Inl JSONDecodeError, Inl TypeError}
         \<longleftrightarrow> manifest fs = Missing \<or> manifest fs = Unparseable
              \<or> (\<exists>j. manifest fs = Doc j \<and> (\<forall>m'. j \<noteq> JObj m'))))"
proof -
  have a: "table_accepted (csv fs) \<and> manifest fs = Doc (JObj m) \<longrightarrow>
        generate sha now d fs =
          (case run_rows sha d
                  (initial_loop_state (dict_of (map_of (shaped m) ''puzzles'')) (puzzles fs))
                  (rows (loaded_table (csv fs))) of
             (st, Some e) \<Rightarrow> (fs\<lparr>puzzles := puzzles_dir st\<rparr>, Inl e)
           | (st, None) \<Rightarrow>
               (case finish now d fs (loaded_table (csv fs)) (shaped m) st of
                  (fs', rep) \<Rightarrow> (fs', Inr rep)))"
    using generate_accepted [of fs m sha now d] by (simp add: loop_start_def)
  have b: "table_accepted (csv fs) \<and> manifest fs = Doc (JObj m) \<longrightarrow>
        snd (generate sha now d fs) \<noteq> Inl FileNotFoundError
        \<and> snd (generate sha now d fs) \<noteq> Inl JSONDecodeError
        \<and> snd (generate sha now d fs) \<noteq> Inl TypeError
        \<and> (\<forall>rep. snd (generate sha now d fs) = Inr rep \<longrightarrow>
              is_dict (map_of (manifest_in_memory rep) ''puzzles'')
              \<and> is_dict (map_of (manifest_in_memory rep) ''meta''))"
    using generate_accepted_manifest [of fs m sha now d] by auto
  have c: "table_accepted (csv fs) \<longrightarrow>
        (snd (generate sha now d fs) \<in> {Inl FileNotFoundError, Inl JSONDecodeError, Inl TypeError}
         \<longleftrightarrow> manifest fs = Missing \<or> manifest fs = Unparseable
              \<or> (\<exists>j. manifest fs = Doc j \<and> (\<forall>m'. j \<noteq> JObj m')))"
  proof
    assume t: "table_accepted (csv fs)"
    show "snd (generate sha now d fs) \<in> {Inl FileNotFoundError, Inl JSONDecodeError, Inl TypeError}
         \<longleftrightarrow> manifest fs = Missing \<or> manifest fs = Unparseable
              \<or> (\<exists>j. manifest fs = Doc j \<and> (\<forall>m'. j \<noteq> JObj m'))"
    proof (cases "manifest fs" rule: manifest_file_cases)
      case 1
      then show ?thesis using t by (simp add: generate_manifest_missing)
    next
      case 2
      then show ?thesis using t by (simp add: generate_manifest_unparseable)
    next
      case (3 j)
      then show ?thesis using t by (simp add: generate_manifest_not_object)
    next
      case (4 m')
      then show ?thesis using generate_accepted_manifest [OF t 4, of sha now d] by auto
    qed
  qed
  show ?thesis
    using a b c shaped_other [of _ m]
    by (simp add: ensure_manifest_shape_object shaped_puzzles shaped_meta)
qed

theorem manifest_shape_amended_witness:
  "map_of (shaped [(''puzzles'', JArr [])]) ''puzzles'' = Some (JObj [])
   \<and> map_of (shaped [(''puzzles'', JArr [])]) ''meta'' = Some (JObj [])
   \<and> snd (generate sample_sha sample_now False
             (sample_files\<lparr>manifest := Doc (JObj [(''puzzles'', JArr [])])\<rparr>)) \<noteq> Inl TypeError"
proof -
  let ?fs = "sample_files\<lparr>manifest := Doc (JObj [(''puzzles'', JArr [])])\<rparr>"
  note inst = manifest_shape_amended [of "[(''puzzles'', JArr [])]" ?fs sample_sha sample_now False]
  have t: "table_accepted (csv ?fs) \<and> manifest ?fs = Doc (JObj [(''puzzles'', JArr [])])"
    by (simp add: table_accepted_def sample_files_def sample_csv_def sample_header_def
        REQUIRED_COLUMNS_def)
  have 1: "map_of (shaped [(''puzzles'', JArr [])]) ''puzzles'' = Some (JObj [])"
    using inst [THEN conjunct2, THEN conjunct1] by (simp add: is_dict_def)
  have 2: "map_of (shaped [(''puzzles'', JArr [])]) ''meta'' = Some (JObj [])"
    using inst [THEN conjunct2, THEN conjunct2, THEN conjunct1] by (simp add: is_dict_def)
  have 3: "snd (generate sample_sha sample_now False ?fs) \<noteq> Inl TypeError"
    using inst [THEN conjunct2, THEN conjunct2, THEN conjunct2, THEN conjunct2, THEN conjunct1] t
    by blast
  show ?thesis using 1 2 3 by blast
qed

section \<open>Claim C9: the manifest is only upserted\<close>



section \<open>Claim C4: the time stamp of the manifest\<close>





end
